theory Spec2Isabelle
  imports Complex_Main "HOL-Library.AList"
begin

section \<open>JavaScript values\<close>

text \<open>
  The scripts of the repository are JavaScript/TypeScript modules run by Node. The values
  they handle themselves are JSON data: the parsed cache file and the arguments an agent
  passes to the tool function \<open>sumNumbers\<close>.

  An array is its elements (\<open>undefined\<close> standing for a hole) and its other own
  properties: \<^verbatim>\<open>JSON.parse\<close> gives an array none, an assignment \<^verbatim>\<open>a[k] = v\<close> with a key
  that is neither an index nor \<open>length\<close> adds one.

  A Number is an IEEE 754 double. \<open>Fin q\<close> stands for the finite double whose exact value
  is the rational \<open>q\<close>; negative zero is identified with zero (no operation below tells
  them apart: \<open>String(-0)\<close> is \<open>"0"\<close> and both are falsy).
\<close>

datatype jsnum = NaN | PosInf | NegInf | Fin rat

datatype jsval =
    JUndefined
  | JNull
  | JBool bool
  | JNum jsnum
  | JStr string
  | JArray "jsval list" "(string \<times> jsval) list"
  | JObject "(string \<times> jsval) list"

text \<open>What a script or a library call throws or rejects with.\<close>

datatype exn = TypeError | SyntaxError | ENOENT | Rejected string

subsection \<open>Rounding to a double\<close>

definition pow2 :: "int \<Rightarrow> rat" where
  "pow2 e = (if 0 \<le> e then 2 ^ nat e else 1 / 2 ^ nat (- e))"

definition pow10 :: "int \<Rightarrow> rat" where
  "pow10 e = (if 0 \<le> e then 10 ^ nat e else 1 / 10 ^ nat (- e))"

text \<open>\<open>ndigits b n\<close>: the number of digits of \<open>n\<close> in base \<open>b\<close> (0 for \<open>n \<le> 0\<close>).\<close>

function ndigits :: "int \<Rightarrow> int \<Rightarrow> int" where
  "ndigits b n = (if n \<le> 0 \<or> b < 2 then 0 else 1 + ndigits b (n div b))"
  by pat_completeness auto
termination
  by (relation "measure (\<lambda>(b, n). nat n)") (auto intro: int_div_less_self)

declare ndigits.simps [simp del]

text \<open>For \<open>0 < a\<close>, \<open>magnitude b a\<close> is the \<open>m\<close> with \<open>b^(m-1) \<le> a < b^m\<close>.\<close>

definition magnitude :: "int \<Rightarrow> rat \<Rightarrow> int" where
  "magnitude b a =
     (if 1 \<le> a then ndigits b \<lfloor>a\<rfloor>
      else 1 - ndigits b (\<lceil>1 / a\<rceil> - 1))"

definition round_half_even :: "rat \<Rightarrow> int" where
  "round_half_even q =
     (if q - of_int \<lfloor>q\<rfloor> < 1 / 2 then \<lfloor>q\<rfloor>
      else if 1 / 2 < q - of_int \<lfloor>q\<rfloor> then \<lfloor>q\<rfloor> + 1
      else if even \<lfloor>q\<rfloor> then \<lfloor>q\<rfloor> else \<lfloor>q\<rfloor> + 1)"

text \<open>
  The exponent of the last bit of the 53-bit significand of a double of magnitude \<open>a\<close>
  (\<open>-1074\<close> for the subnormal range), and \<open>a\<close> rounded to a multiple of that bit, ties to
  even.
\<close>

definition ulp_exp :: "rat \<Rightarrow> int" where
  "ulp_exp a = max (- 1074) (magnitude 2 a - 53)"

definition round_to :: "rat \<Rightarrow> int \<Rightarrow> rat" where
  "round_to a e = of_int (round_half_even (a / pow2 e)) * pow2 e"

text \<open>
  \<open>fl q\<close>: the Number value of the real number \<open>q\<close> (IEEE 754 roundTiesToEven; a result
  of magnitude \<open>2^1024\<close> or more is an infinity). It is how a decimal literal or a JSON
  number is read, and how the exact sum of two doubles is rounded.
\<close>

definition fl :: "rat \<Rightarrow> jsnum" where
  "fl q =
     (if q = 0 then Fin 0
      else if pow2 1024 \<le> round_to \<bar>q\<bar> (ulp_exp \<bar>q\<bar>)
        then (if 0 < q then PosInf else NegInf)
        else Fin (sgn q * round_to \<bar>q\<bar> (ulp_exp \<bar>q\<bar>)))"

text \<open>Number::add.\<close>

fun num_add :: "jsnum \<Rightarrow> jsnum \<Rightarrow> jsnum" where
  "num_add NaN _ = NaN"
| "num_add _ NaN = NaN"
| "num_add PosInf NegInf = NaN"
| "num_add NegInf PosInf = NaN"
| "num_add PosInf _ = PosInf"
| "num_add _ PosInf = PosInf"
| "num_add NegInf _ = NegInf"
| "num_add _ NegInf = NegInf"
| "num_add (Fin a) (Fin b) = fl (a + b)"

subsection \<open>Number::toString\<close>

function dec :: "int \<Rightarrow> string" where
  "dec n =
     (if n < 10 then [''0123456789'' ! nat n]
      else dec (n div 10) @ [''0123456789'' ! nat (n mod 10)])"
  by pat_completeness auto
termination
  by (relation "measure nat") auto

declare dec.simps [simp del]

text \<open>
  ECMAScript prints a finite positive Number \<open>x\<close> from integers \<open>n\<close>, \<open>k\<close>, \<open>s\<close> with
  \<open>k \<ge> 1\<close>, \<open>10^(k-1) \<le> s < 10^k\<close>, the Number value of \<open>s * 10^(n-k)\<close> being \<open>x\<close>, and \<open>k\<close>
  as small as possible; among several \<open>s\<close> the one nearest to \<open>x\<close> is taken.
  \<open>candidates x k n\<close> are the pairs \<open>(s, n)\<close> that qualify among the two \<open>k\<close>-digit
  decimals around \<open>x\<close>; \<open>shortest\<close> searches \<open>k = 1, 2, ...\<close> (17 digits always identify a
  double).
\<close>

definition candidates :: "rat \<Rightarrow> nat \<Rightarrow> int \<Rightarrow> (int \<times> int) list" where
  "candidates x k n =
     map (\<lambda>s. (s, n))
       (filter (\<lambda>s. 10 ^ (k - 1) \<le> s \<and> s < 10 ^ k \<and> fl (of_int s * pow10 (n - int k)) = Fin x)
          [\<lfloor>x / pow10 (n - int k)\<rfloor>, \<lfloor>x / pow10 (n - int k)\<rfloor> + 1])"

definition dist :: "rat \<Rightarrow> nat \<Rightarrow> int \<times> int \<Rightarrow> rat" where
  "dist x k c = \<bar>of_int (fst c) * pow10 (snd c - int k) - x\<bar>"

fun closest :: "rat \<Rightarrow> nat \<Rightarrow> (int \<times> int) list \<Rightarrow> (int \<times> int) option" where
  "closest x k [] = None"
| "closest x k (c # cs) =
     (case closest x k cs of
        None \<Rightarrow> Some c
      | Some d \<Rightarrow>
          if dist x k c < dist x k d \<or> (dist x k c = dist x k d \<and> even (fst c))
          then Some c else Some d)"

function shortest :: "rat \<Rightarrow> nat \<Rightarrow> nat \<times> int \<times> int" where
  "shortest x k =
     (if 17 \<le> k then (17, round_half_even (x / pow10 (magnitude 10 x - 17)), magnitude 10 x)
      else (case closest x k (candidates x k (magnitude 10 x) @ candidates x k (magnitude 10 x + 1)) of
              Some c \<Rightarrow> (k, c)
            | None \<Rightarrow> shortest x (Suc k)))"
  by pat_completeness auto
termination
  by (relation "measure (\<lambda>(x, k). 17 - k)") auto

declare shortest.simps [simp del]

text \<open>The layout of the digits: plain, with a decimal point, or in exponent notation.\<close>

fun format_digits :: "nat \<times> int \<times> int \<Rightarrow> string" where
  "format_digits (k, s, n) =
     (if int k \<le> n \<and> n \<le> 21 then dec s @ replicate (nat (n - int k)) CHR ''0''
      else if 0 < n \<and> n \<le> 21 then take (nat n) (dec s) @ ''.'' @ drop (nat n) (dec s)
      else if - 6 < n \<and> n \<le> 0 then ''0.'' @ replicate (nat (- n)) CHR ''0'' @ dec s
      else if k = 1 then dec s @ ''e'' @ (if 0 \<le> n - 1 then ''+'' else ''-'') @ dec \<bar>n - 1\<bar>
      else take 1 (dec s) @ ''.'' @ drop 1 (dec s) @ ''e''
             @ (if 0 \<le> n - 1 then ''+'' else ''-'') @ dec \<bar>n - 1\<bar>)"

fun number_to_string :: "jsnum \<Rightarrow> string" where
  "number_to_string NaN = ''NaN''"
| "number_to_string PosInf = ''Infinity''"
| "number_to_string NegInf = ''-Infinity''"
| "number_to_string (Fin q) =
     (if q = 0 then ''0''
      else if q < 0 then ''-'' @ format_digits (shortest (- q) 1)
      else format_digits (shortest q 1))"

subsection \<open>ToBoolean, ToString, ToPrimitive and the operator \<open>+\<close>\<close>

fun truthy :: "jsval \<Rightarrow> bool" where
  "truthy JUndefined = False"
| "truthy JNull = False"
| "truthy (JBool b) = b"
| "truthy (JNum n) = (n \<noteq> NaN \<and> n \<noteq> Fin 0)"
| "truthy (JStr s) = (s \<noteq> [])"
| "truthy (JArray xs ps) = True"
| "truthy (JObject ps) = True"

text \<open>
  ToString. An array is joined with commas, \<open>null\<close> and \<open>undefined\<close> elements printing as
  the empty string. A plain object prints through the inherited \<open>Object.prototype.toString\<close>.
  An own property \<open>toString\<close> holds data and is not callable, and the conversion then
  throws a TypeError; with an own property \<open>join\<close> an array prints through
  \<open>Object.prototype.toString\<close> as well.
\<close>

fun to_string :: "jsval \<Rightarrow> exn + string"
  and join_elems :: "jsval list \<Rightarrow> exn + string" where
  "to_string JUndefined = Inr ''undefined''"
| "to_string JNull = Inr ''null''"
| "to_string (JBool b) = Inr (if b then ''true'' else ''false'')"
| "to_string (JNum n) = Inr (number_to_string n)"
| "to_string (JStr s) = Inr s"
| "to_string (JArray xs ps) =
     (if map_of ps ''toString'' \<noteq> None then Inl TypeError
      else if map_of ps ''join'' \<noteq> None then Inr ''[object Array]''
      else join_elems xs)"
| "to_string (JObject ps) =
     (if map_of ps ''toString'' = None then Inr ''[object Object]'' else Inl TypeError)"
| "join_elems [] = Inr []"
| "join_elems (x # xs) =
     (case (if x = JUndefined \<or> x = JNull then Inr [] else to_string x) of
        Inl e \<Rightarrow> Inl e
      | Inr s \<Rightarrow>
          if xs = [] then Inr s
          else (case join_elems xs of Inl e \<Rightarrow> Inl e | Inr t \<Rightarrow> Inr (s @ '','' @ t)))"

text \<open>ToPrimitive: an array or object becomes the string it prints as.\<close>

fun to_primitive :: "jsval \<Rightarrow> exn + jsval" where
  "to_primitive (JArray xs ps) =
     (case to_string (JArray xs ps) of Inl e \<Rightarrow> Inl e | Inr s \<Rightarrow> Inr (JStr s))"
| "to_primitive (JObject ps) =
     (case to_string (JObject ps) of Inl e \<Rightarrow> Inl e | Inr s \<Rightarrow> Inr (JStr s))"
| "to_primitive v = Inr v"

text \<open>ToNumber of a primitive that is not a string (\<open>None\<close> for every other value).\<close>

fun to_number :: "jsval \<Rightarrow> jsnum option" where
  "to_number JUndefined = Some NaN"
| "to_number JNull = Some (Fin 0)"
| "to_number (JBool b) = Some (Fin (if b then 1 else 0))"
| "to_number (JNum n) = Some n"
| "to_number _ = None"

text \<open>
  \<open>a + b\<close>: both operands are made primitive, the left one first; if one of them is then
  a string the result is the concatenation of their strings, otherwise the sum of their
  numbers.
\<close>

definition js_plus :: "jsval \<Rightarrow> jsval \<Rightarrow> exn + jsval" where
  "js_plus a b =
     (case to_primitive a of
        Inl e \<Rightarrow> Inl e
      | Inr pa \<Rightarrow>
          (case to_primitive b of
             Inl e \<Rightarrow> Inl e
           | Inr pb \<Rightarrow>
               (case (to_number pa, to_number pb) of
                  (Some x, Some y) \<Rightarrow> Inr (JNum (num_add x y))
                | _ \<Rightarrow>
                    (case to_string pa of
                       Inl e \<Rightarrow> Inl e
                     | Inr s \<Rightarrow>
                         (case to_string pb of
                            Inl e \<Rightarrow> Inl e
                          | Inr t \<Rightarrow> Inr (JStr (s @ t)))))))"

section \<open>The tool function\<close>

text \<open>
  \<^verbatim>\<open>const sumNumbers = ({a, b}) => { return `${a + b}`; }\<close>
  (the same in every script that has it). \<open>a\<close> and \<open>b\<close> are the two properties
  destructured from the argument object; the template literal is ToString of the sum.
\<close>

definition sumNumbers :: "jsval \<Rightarrow> jsval \<Rightarrow> exn + string" where
  "sumNumbers a b = (case js_plus a b of Inl e \<Rightarrow> Inl e | Inr v \<Rightarrow> to_string v)"

section \<open>Tool descriptors\<close>

text \<open>
  The metadata object handed to \<^verbatim>\<open>FunctionTool.from\<close> and \<^verbatim>\<open>new QueryEngineTool\<close>: a
  name, a description and, for a function tool, a JSON schema of the parameters.
\<close>

record param =
  ptype :: string
  pdescription :: string

record schema =
  stype :: string
  properties :: "(string \<times> param) list"
  required :: "string list"

record metadata =
  name :: string
  description :: string
  parameters :: "schema option"

datatype tool =
    FunctionTool "jsval \<Rightarrow> jsval \<Rightarrow> exn + string" metadata
  | QueryEngineTool metadata

fun tool_metadata :: "tool \<Rightarrow> metadata" where
  "tool_metadata (FunctionTool f md) = md"
| "tool_metadata (QueryEngineTool md) = md"

definition sumNumbers_metadata :: metadata where
  "sumNumbers_metadata =
     \<lparr>name = ''sumNumbers'',
      description = ''Use this function to sum two numbers'',
      parameters = Some
        \<lparr>stype = ''object'',
         properties =
           [(''a'', \<lparr>ptype = ''number'', pdescription = ''First number to sum''\<rparr>),
            (''b'', \<lparr>ptype = ''number'', pdescription = ''Second number to sum''\<rparr>)],
         required = [''a'', ''b'']\<rparr>\<rparr>"

definition budget_tool_metadata :: metadata where
  "budget_tool_metadata =
     \<lparr>name = ''san_francisco_budget_tool'',
      description = ''This tool can answer detailed questions about the individual components of the budget of San Francisco in 2023-2024.'',
      parameters = None\<rparr>"

text \<open>The \<open>tools\<close> array of each script.\<close>

definition tools_agent :: "tool list" where
  "tools_agent = [FunctionTool sumNumbers sumNumbers_metadata]"

definition tools_ollama :: "tool list" where
  "tools_ollama = [FunctionTool sumNumbers sumNumbers_metadata]"

definition tools_agentic_rag :: "tool list" where
  "tools_agentic_rag = [QueryEngineTool budget_tool_metadata]"

definition tools_rag_and_tools :: "tool list" where
  "tools_rag_and_tools =
     [QueryEngineTool budget_tool_metadata, FunctionTool sumNumbers sumNumbers_metadata]"

definition tools_qdrant :: "tool list" where
  "tools_qdrant =
     [QueryEngineTool budget_tool_metadata, FunctionTool sumNumbers sumNumbers_metadata]"

definition all_tools :: "tool list" where
  "all_tools = tools_agent @ tools_ollama @ tools_agentic_rag @ tools_rag_and_tools @ tools_qdrant"

section \<open>The world outside the scripts\<close>

text \<open>
  Everything else a script does is a call into the library, the file system or the
  console. A call is recorded when it is issued; whether it fails, and with what, is the
  world's choice. \<open>'d\<close> is the type of the documents a reader returns.
\<close>

datatype logged = Text string | Response string

datatype 'd call =
    NewOpenAI "string option" string
  | NewOllama string
  | NewHuggingFaceEmbedding string bool
  | CallbackOn string
  | NewQdrantVectorStore string
  | FsAccess string
  | FsReadFile string
  | FsWriteFile string string
  | NewLlamaParseReader string
  | NewSimpleDirectoryReader
  | LoadData string
  | FromDocuments "'d list" "string option"
  | AsRetriever
  | SetSimilarityTopK nat
  | AsQueryEngine
  | NewTool tool
  | NewOpenAIAgent "tool list"
  | NewReActAgent "tool list"
  | AgentChat string
  | ConsoleLog logged
  | ConsoleError exn
  | UncaughtException exn

text \<open>
  \<^item> \<open>openai_api_key\<close>: \<^verbatim>\<open>process.env.OPENAI_API_KEY\<close>, if set;
  \<^item> \<open>fault c\<close>: the exception the call \<open>c\<close> throws or rejects with, if it fails;
  \<^item> \<open>json_parse\<close>, \<open>json_stringify\<close>: \<^verbatim>\<open>JSON.parse\<close> (\<open>None\<close>: a SyntaxError) and
    \<^verbatim>\<open>JSON.stringify\<close>;
  \<^item> \<open>load_data p\<close>: the documents \<^verbatim>\<open>reader.loadData(p)\<close> resolves to;
  \<^item> \<open>exotic_truthy v k\<close>, \<open>exotic_assign v k\<close>: what the engine makes of \<^verbatim>\<open>!!v[k]\<close> and of
    \<^verbatim>\<open>v[k] = true\<close> when \<open>v\<close> is a boolean, a number or a string (the properties of the
    wrapper prototypes; an assignment that throws in strict mode and is ignored
    otherwise).
\<close>

record 'd world =
  openai_api_key :: "string option"
  fault :: "'d call \<Rightarrow> exn option"
  json_parse :: "string \<Rightarrow> jsval option"
  json_stringify :: "jsval \<Rightarrow> string"
  load_data :: "string \<Rightarrow> 'd list"
  exotic_truthy :: "jsval \<Rightarrow> string \<Rightarrow> bool"
  exotic_assign :: "jsval \<Rightarrow> string \<Rightarrow> exn + jsval"

text \<open>The state a run changes: the files on disk and the calls issued so far, in order.\<close>

record 'd state =
  files :: "string \<rightharpoonup> string"
  calls :: "'d call list"

subsection \<open>Awaited calls\<close>

text \<open>
  A computation takes the state and returns the new state with either the exception that
  ended it (\<open>Inl\<close>) or its value. \<open>await m k\<close> runs \<open>m\<close> and continues with \<open>k\<close> when
  \<open>m\<close> did not fail: an awaited call followed by the rest of the function body.
\<close>

definition await ::
  "('s \<Rightarrow> (exn + 'a) \<times> 's) \<Rightarrow> ('a \<Rightarrow> 's \<Rightarrow> (exn + 'b) \<times> 's) \<Rightarrow> 's \<Rightarrow> (exn + 'b) \<times> 's" where
  "await m k s = (case m s of (Inl e, s') \<Rightarrow> (Inl e, s') | (Inr x, s') \<Rightarrow> k x s')"

definition ret :: "'a \<Rightarrow> 's \<Rightarrow> (exn + 'a) \<times> 's" where
  "ret x s = (Inr x, s)"

definition throw :: "exn \<Rightarrow> 's \<Rightarrow> (exn + 'a) \<times> 's" where
  "throw e s = (Inl e, s)"

definition ext :: "'d world \<Rightarrow> 'd call \<Rightarrow> 'd state \<Rightarrow> (exn + unit) \<times> 'd state" where
  "ext w c s =
     ((case fault w c of Some e \<Rightarrow> Inl e | None \<Rightarrow> Inr ()), s\<lparr>calls := calls s @ [c]\<rparr>)"

text \<open>A straight-line sequence of calls: the first failure ends it.\<close>

fun steps :: "'d world \<Rightarrow> 'd call list \<Rightarrow> 'd state \<Rightarrow> (exn + unit) \<times> 'd state" where
  "steps w [] = ret ()"
| "steps w (c # cs) = await (ext w c) (\<lambda>_. steps w cs)"

subsection \<open>The file system\<close>

text \<open>
  \<^verbatim>\<open>fs.access(p, F_OK)\<close> rejects when the file does not exist; \<^verbatim>\<open>fs.readFile\<close> resolves to
  the contents; \<^verbatim>\<open>fs.writeFile\<close> replaces them. A write that is rejected is taken to
  leave the file as it was.
\<close>

definition fs_access :: "'d world \<Rightarrow> string \<Rightarrow> 'd state \<Rightarrow> (exn + unit) \<times> 'd state" where
  "fs_access w p s =
     (case files s p of
        None \<Rightarrow> (Inl ENOENT, s\<lparr>calls := calls s @ [FsAccess p]\<rparr>)
      | Some text \<Rightarrow> ext w (FsAccess p) s)"

definition fs_readFile :: "'d world \<Rightarrow> string \<Rightarrow> 'd state \<Rightarrow> (exn + string) \<times> 'd state" where
  "fs_readFile w p =
     await (ext w (FsReadFile p))
       (\<lambda>_ s. case files s p of None \<Rightarrow> throw ENOENT s | Some text \<Rightarrow> ret text s)"

definition fs_writeFile ::
  "'d world \<Rightarrow> string \<Rightarrow> string \<Rightarrow> 'd state \<Rightarrow> (exn + unit) \<times> 'd state" where
  "fs_writeFile w p text =
     await (ext w (FsWriteFile p text)) (\<lambda>_ s. ret () (s\<lparr>files := (files s)(p \<mapsto> text)\<rparr>))"

section \<open>The parsing cache of the Qdrant script\<close>

definition PARSING_CACHE :: string where
  "PARSING_CACHE = ''./cache.json''"

definition filesToParse :: "string list" where
  "filesToParse = [''../data/sf_budget_2023_2024.pdf'']"

text \<open>
  The properties every plain object inherits from \<^verbatim>\<open>Object.prototype\<close>; each of them is a
  function or an object, hence truthy.
\<close>

definition object_prototype_members :: "string list" where
  "object_prototype_members =
     [''constructor'', ''__defineGetter__'', ''__defineSetter__'', ''hasOwnProperty'',
      ''__lookupGetter__'', ''__lookupSetter__'', ''isPrototypeOf'', ''propertyIsEnumerable'',
      ''toString'', ''valueOf'', ''__proto__'', ''toLocaleString'']"

text \<open>
  What an array inherits in addition, from \<^verbatim>\<open>Array.prototype\<close> (ECMAScript 2023), all of
  them functions.
\<close>

definition array_prototype_members :: "string list" where
  "array_prototype_members =
     [''at'', ''concat'', ''copyWithin'', ''entries'', ''every'', ''fill'', ''filter'',
      ''find'', ''findIndex'', ''findLast'', ''findLastIndex'', ''flat'', ''flatMap'',
      ''forEach'', ''includes'', ''indexOf'', ''join'', ''keys'', ''lastIndexOf'', ''map'',
      ''pop'', ''push'', ''reduce'', ''reduceRight'', ''reverse'', ''shift'', ''slice'',
      ''some'', ''sort'', ''splice'', ''toReversed'', ''toSorted'', ''toSpliced'',
      ''unshift'', ''values'', ''with'']"

text \<open>
  A property key is an array index when it is the decimal numeral, without leading
  zeros, of an integer below \<open>2^32 - 1\<close>.
\<close>

definition numeral_value :: "string \<Rightarrow> int" where
  "numeral_value k = foldl (\<lambda>n c. 10 * n + (of_char c - 48)) 0 k"

definition array_index :: "string \<Rightarrow> nat option" where
  "array_index k =
     (if k \<noteq> [] \<and> list_all (\<lambda>c. c \<in> set ''0123456789'') k \<and> dec (numeral_value k) = k \<and>
         numeral_value k < 2 ^ 32 - 1
      then Some (nat (numeral_value k)) else None)"

text \<open>
  \<^verbatim>\<open>!!cache[file]\<close>: reading a property of \<open>null\<close> or \<open>undefined\<close> throws a TypeError; an
  object answers with its own property and otherwise with the inherited one; an array
  has its elements and its \<open>length\<close> before them.
\<close>

definition cache_has :: "'d world \<Rightarrow> jsval \<Rightarrow> string \<Rightarrow> exn + bool" where
  "cache_has w cache file =
     (case cache of
        JUndefined \<Rightarrow> Inl TypeError
      | JNull \<Rightarrow> Inl TypeError
      | JObject ps \<Rightarrow>
          Inr (case map_of ps file of
                 Some v \<Rightarrow> truthy v
               | None \<Rightarrow> file \<in> set object_prototype_members)
      | JArray xs ps \<Rightarrow>
          Inr (case array_index file of
                 Some i \<Rightarrow> i < length xs \<and> truthy (xs ! i)
               | None \<Rightarrow>
                   if file = ''length'' then xs \<noteq> []
                   else (case map_of ps file of
                           Some v \<Rightarrow> truthy v
                         | None \<Rightarrow>
                             file \<in> set array_prototype_members \<or>
                             file \<in> set object_prototype_members))
      | _ \<Rightarrow> Inr (exotic_truthy w cache file))"

text \<open>
  \<^verbatim>\<open>cache[file] = true\<close>: on an object the own property is set or created, except that
  \<open>__proto__\<close>, when it is not an own property, is the inherited setter, which ignores a
  boolean. On an array an index sets the element, after holes when it lies beyond the
  end, and \<open>length\<close> (\<open>true\<close> converts to 1) cuts or extends the array to one element.
  (The script mutates the object; the model returns the new one.)
\<close>

definition cache_mark :: "'d world \<Rightarrow> jsval \<Rightarrow> string \<Rightarrow> exn + jsval" where
  "cache_mark w cache file =
     (case cache of
        JUndefined \<Rightarrow> Inl TypeError
      | JNull \<Rightarrow> Inl TypeError
      | JObject ps \<Rightarrow>
          Inr (if file = ''__proto__'' \<and> map_of ps file = None then JObject ps
               else JObject (AList.update file (JBool True) ps))
      | JArray xs ps \<Rightarrow>
          Inr (case array_index file of
                 Some i \<Rightarrow>
                   if i < length xs then JArray (xs[i := JBool True]) ps
                   else JArray (xs @ replicate (i - length xs) JUndefined @ [JBool True]) ps
               | None \<Rightarrow>
                   if file = ''length'' then JArray (take 1 (xs @ [JUndefined])) ps
                   else if file = ''__proto__'' \<and> map_of ps file = None then JArray xs ps
                   else JArray xs (AList.update file (JBool True) ps))
      | _ \<Rightarrow> exotic_assign w cache file)"

text \<open>
  \<^verbatim>\<open>
  let cache = {}
  let cacheExists = false
  try {
      await fs.access(PARSING_CACHE, fs.constants.F_OK)
      cacheExists = true
  } catch (e) {
      console.log("No cache found")
  }
  if (cacheExists) {
      cache = JSON.parse(await fs.readFile(PARSING_CACHE, "utf-8"))
  }\<close>
\<close>

definition cache_exists :: "'d world \<Rightarrow> 'd state \<Rightarrow> (exn + bool) \<times> 'd state" where
  "cache_exists w s =
     (case fs_access w PARSING_CACHE s of
        (Inl e, s') \<Rightarrow> await (ext w (ConsoleLog (Text ''No cache found''))) (\<lambda>_. ret False) s'
      | (Inr _, s') \<Rightarrow> ret True s')"

definition load_cache :: "'d world \<Rightarrow> 'd state \<Rightarrow> (exn + jsval) \<times> 'd state" where
  "load_cache w =
     await (cache_exists w)
       (\<lambda>cacheExists.
          if cacheExists then
            await (fs_readFile w PARSING_CACHE)
              (\<lambda>text. case json_parse w text of None \<Rightarrow> throw SyntaxError | Some v \<Rightarrow> ret v)
          else ret (JObject []))"

text \<open>
  \<^verbatim>\<open>
  for (let file of filesToParse) {
      if (!cache[file]) {
          documents = documents.concat(await reader.loadData(file))
          cache[file] = true
      }
  }\<close>
\<close>

fun parse_loop ::
  "'d world \<Rightarrow> string list \<Rightarrow> jsval \<times> 'd list \<Rightarrow> 'd state \<Rightarrow> (exn + jsval \<times> 'd list) \<times> 'd state" where
  "parse_loop w [] (cache, documents) = ret (cache, documents)"
| "parse_loop w (file # rest) (cache, documents) =
     (case cache_has w cache file of
        Inl e \<Rightarrow> throw e
      | Inr True \<Rightarrow> parse_loop w rest (cache, documents)
      | Inr False \<Rightarrow>
          await (ext w (LoadData file))
            (\<lambda>_. case cache_mark w cache file of
                    Inl e \<Rightarrow> throw e
                  | Inr cache' \<Rightarrow> parse_loop w rest (cache', documents @ load_data w file)))"

text \<open>
  Lines 50 to 75 of the script: load the cache, create the reader
  (\<^verbatim>\<open>new LlamaParseReader({ resultType: "markdown" })\<close>) and run the loop over the batch.
\<close>

definition parse_batch ::
  "'d world \<Rightarrow> string list \<Rightarrow> 'd state \<Rightarrow> (exn + jsval \<times> 'd list) \<times> 'd state" where
  "parse_batch w batch =
     await (load_cache w)
       (\<lambda>cache.
          await (ext w (NewLlamaParseReader ''markdown''))
            (\<lambda>_. parse_loop w batch (cache, [])))"

text \<open>
  The ingestion step: \<open>parse_batch\<close>, then
  \<^verbatim>\<open>await fs.writeFile(PARSING_CACHE, JSON.stringify(cache))\<close>. It returns the cache that
  was written and the documents.
\<close>

definition ingest ::
  "'d world \<Rightarrow> string list \<Rightarrow> 'd state \<Rightarrow> (exn + jsval \<times> 'd list) \<times> 'd state" where
  "ingest w batch =
     await (parse_batch w batch)
       (\<lambda>(cache, documents).
          await (fs_writeFile w PARSING_CACHE (json_stringify w cache))
            (\<lambda>_. ret (cache, documents)))"

section \<open>The scripts\<close>

text \<open>
  A script is its sequence of calls. The callbacks registered with
  \<^verbatim>\<open>Settings.callbackManager.on\<close> only print what the library hands them while a chat is
  running; they are part of the call \<open>AgentChat\<close>.
\<close>

definition qdrant_url :: string where
  "qdrant_url = ''http://localhost:6333''"

definition health_question :: string where
  "health_question =
     ''What's the budget of San Francisco for the health service system in 2023-24?''"

definition police_question :: string where
  "police_question =
     ''What's the budget of San Francisco for the police department in 2023-24?''"

definition combined_question :: string where
  "combined_question =
     ''What's the combined budget of San Francisco for the health service system and police department in 2023-24?''"

text \<open>
  The Qdrant script (\<^verbatim>\<open>src/unnamed/part_002\<close>), function \<open>main\<close>: the calls before the
  ingestion step (lines 20 to 48), the ingestion step, and the calls after it (lines 81
  to 144), which build the index from the documents and run the agent.
\<close>

definition qdrant_setup :: "'d world \<Rightarrow> 'd call list" where
  "qdrant_setup w =
     [NewOpenAI (openai_api_key w) ''gpt-4o'',
      NewHuggingFaceEmbedding ''BAAI/bge-small-en-v1.5'' False,
      CallbackOn ''llm-tool-call'',
      CallbackOn ''llm-tool-result'',
      NewQdrantVectorStore qdrant_url]"

definition qdrant_agent :: "'d list \<Rightarrow> 'd call list" where
  "qdrant_agent documents =
     [FromDocuments documents (Some qdrant_url),
      AsRetriever,
      SetSimilarityTopK 10,
      AsQueryEngine,
      NewTool (QueryEngineTool budget_tool_metadata),
      NewTool (FunctionTool sumNumbers sumNumbers_metadata),
      NewOpenAIAgent tools_qdrant,
      AgentChat health_question,
      ConsoleLog (Response health_question),
      AgentChat police_question,
      ConsoleLog (Response police_question),
      AgentChat combined_question,
      ConsoleLog (Response combined_question)]"

definition main_qdrant :: "'d world \<Rightarrow> 'd state \<Rightarrow> (exn + unit) \<times> 'd state" where
  "main_qdrant w =
     await (steps w (qdrant_setup w))
       (\<lambda>_. await (ingest w filesToParse)
          (\<lambda>(cache, documents). steps w (qdrant_agent documents)))"

text \<open>\<^verbatim>\<open>src/1_agent/agent.mjs\<close>: the module body, with top-level awaits.\<close>

definition module_agent :: "'d world \<Rightarrow> 'd state \<Rightarrow> (exn + unit) \<times> 'd state" where
  "module_agent w =
     steps w
       [NewOpenAI (openai_api_key w) ''gpt-4-turbo'',
        CallbackOn ''llm-tool-call'',
        CallbackOn ''llm-tool-result'',
        NewTool (FunctionTool sumNumbers sumNumbers_metadata),
        NewOpenAIAgent tools_agent,
        AgentChat ''Add 101 and 303'',
        ConsoleLog (Response ''Add 101 and 303'')]"

text \<open>The local-model script (\<^verbatim>\<open>src/unnamed/part_000\<close>), function \<open>main\<close>.\<close>

definition main_ollama :: "'d world \<Rightarrow> 'd state \<Rightarrow> (exn + unit) \<times> 'd state" where
  "main_ollama w =
     steps w
       [NewOllama ''mixtral:8x7b'',
        CallbackOn ''llm-tool-call'',
        CallbackOn ''llm-tool-result'',
        NewTool (FunctionTool sumNumbers sumNumbers_metadata),
        NewReActAgent tools_ollama,
        AgentChat ''Add 101 and 303'',
        ConsoleLog (Response ''Add 101 and 303'')]"

text \<open>\<^verbatim>\<open>src/2_agentic_rag/agent.ts\<close>, function \<open>main\<close>.\<close>

definition budget_question :: string where
  "budget_question = ''What's the budget of San Francisco in 2023-2024?''"

definition main_agentic_rag :: "'d world \<Rightarrow> 'd state \<Rightarrow> (exn + unit) \<times> 'd state" where
  "main_agentic_rag w =
     steps w
       [NewOpenAI (openai_api_key w) ''gpt-4o'',
        NewHuggingFaceEmbedding ''BAAI/bge-small-en-v1.5'' False,
        CallbackOn ''llm-tool-call'',
        CallbackOn ''llm-tool-result'',
        NewSimpleDirectoryReader,
        LoadData ''../data'',
        FromDocuments (load_data w ''../data'') None,
        AsRetriever,
        SetSimilarityTopK 10,
        AsQueryEngine,
        NewTool (QueryEngineTool budget_tool_metadata),
        NewOpenAIAgent tools_agentic_rag,
        AgentChat budget_question,
        ConsoleLog (Response budget_question)]"

text \<open>\<^verbatim>\<open>src/3_rag_and_tools/agent.ts\<close>, function \<open>main\<close>.\<close>

definition community_health_question :: string where
  "community_health_question =
     ''What's the budget of San Francisco for community health in 2023-24?''"

definition public_protection_question :: string where
  "public_protection_question =
     ''What's the budget of San Francisco for public protection in 2023-24?''"

definition combined_question_3 :: string where
  "combined_question_3 =
     ''What's the combined budget of San Francisco for community health and public protection in 2023-24?''"

definition main_rag_and_tools :: "'d world \<Rightarrow> 'd state \<Rightarrow> (exn + unit) \<times> 'd state" where
  "main_rag_and_tools w =
     steps w
       [NewOpenAI (openai_api_key w) ''gpt-4o'',
        NewHuggingFaceEmbedding ''BAAI/bge-small-en-v1.5'' False,
        CallbackOn ''llm-tool-call'',
        CallbackOn ''llm-tool-result'',
        NewSimpleDirectoryReader,
        LoadData ''../data'',
        FromDocuments (load_data w ''../data'') None,
        AsRetriever,
        SetSimilarityTopK 10,
        AsQueryEngine,
        NewTool (QueryEngineTool budget_tool_metadata),
        NewTool (FunctionTool sumNumbers sumNumbers_metadata),
        NewOpenAIAgent tools_rag_and_tools,
        AgentChat community_health_question,
        ConsoleLog (Response community_health_question),
        AgentChat public_protection_question,
        ConsoleLog (Response public_protection_question),
        AgentChat combined_question_3,
        ConsoleLog (Response combined_question_3)]"

subsection \<open>The top level\<close>

text \<open>
  \<^verbatim>\<open>main().catch(console.error)\<close>: a rejection of \<open>main\<close> is printed with
  \<^verbatim>\<open>console.error\<close>, and nothing follows. \<^verbatim>\<open>agent.mjs\<close> has no handler: Node reports the
  rejection of a top-level await itself (it prints the error and exits with status 1),
  which is the call \<open>UncaughtException\<close>.
\<close>

definition top_level ::
  "(exn \<Rightarrow> 'd call) \<Rightarrow> ('d state \<Rightarrow> (exn + unit) \<times> 'd state) \<Rightarrow> 'd state \<Rightarrow> 'd state" where
  "top_level report m s =
     (case m s of
        (Inl e, s') \<Rightarrow> s'\<lparr>calls := calls s' @ [report e]\<rparr>
      | (Inr _, s') \<Rightarrow> s')"

definition run_qdrant :: "'d world \<Rightarrow> 'd state \<Rightarrow> 'd state" where
  "run_qdrant w = top_level ConsoleError (main_qdrant w)"

definition run_agent :: "'d world \<Rightarrow> 'd state \<Rightarrow> 'd state" where
  "run_agent w = top_level UncaughtException (module_agent w)"

definition run_ollama :: "'d world \<Rightarrow> 'd state \<Rightarrow> 'd state" where
  "run_ollama w = top_level ConsoleError (main_ollama w)"

definition run_agentic_rag :: "'d world \<Rightarrow> 'd state \<Rightarrow> 'd state" where
  "run_agentic_rag w = top_level ConsoleError (main_agentic_rag w)"

definition run_rag_and_tools :: "'d world \<Rightarrow> 'd state \<Rightarrow> 'd state" where
  "run_rag_and_tools w = top_level ConsoleError (main_rag_and_tools w)"

text \<open>Every script: its body and how its top level reports a failure.\<close>

definition scripts ::
  "'d world \<Rightarrow> (('d state \<Rightarrow> (exn + unit) \<times> 'd state) \<times> (exn \<Rightarrow> 'd call)) list" where
  "scripts w =
     [(module_agent w, UncaughtException),
      (main_ollama w, ConsoleError),
      (main_agentic_rag w, ConsoleError),
      (main_rag_and_tools w, ConsoleError),
      (main_qdrant w, ConsoleError)]"

section \<open>Notions used in the statements\<close>

text \<open>The calls a computation issues when started in \<open>s\<close>.\<close>

definition issued :: "('d state \<Rightarrow> 'r \<times> 'd state) \<Rightarrow> 'd state \<Rightarrow> 'd call list" where
  "issued m s = drop (length (calls s)) (calls (snd (m s)))"

fun is_access :: "'d call \<Rightarrow> bool" where
  "is_access (FsAccess p) = True"
| "is_access _ = False"

fun is_write :: "'d call \<Rightarrow> bool" where
  "is_write (FsWriteFile p text) = True"
| "is_write _ = False"

fun is_from_documents :: "'d call \<Rightarrow> bool" where
  "is_from_documents (FromDocuments ds u) = True"
| "is_from_documents _ = False"

fun is_load :: "'d call \<Rightarrow> bool" where
  "is_load (LoadData p) = True"
| "is_load _ = False"

fun is_chat :: "'d call \<Rightarrow> bool" where
  "is_chat (AgentChat msg) = True"
| "is_chat _ = False"

text \<open>The paths for which the parsing call was issued.\<close>

definition parsed :: "'d call list \<Rightarrow> string set" where
  "parsed cs = {p. LoadData p \<in> set cs}"

text \<open>
  The cache file at startup holds the entries \<open>ps\<close>: there is no file and \<open>ps\<close> is
  empty, or the file can be accessed and is the JSON text of the object \<open>ps\<close>.
\<close>

definition cache_file_holds :: "'d world \<Rightarrow> 'd state \<Rightarrow> (string \<times> jsval) list \<Rightarrow> bool" where
  "cache_file_holds w s ps =
     (case files s PARSING_CACHE of
        None \<Rightarrow> ps = []
      | Some text \<Rightarrow>
          fault w (FsAccess PARSING_CACHE) = None \<and> json_parse w text = Some (JObject ps))"

text \<open>The documented format of the cache: every entry is a boolean.\<close>

definition boolean_entries :: "(string \<times> jsval) list \<Rightarrow> bool" where
  "boolean_entries ps = list_all (\<lambda>(k, v). v = JBool True \<or> v = JBool False) ps"

text \<open>The calls of the cache loading.\<close>

definition cache_call :: "'d call \<Rightarrow> bool" where
  "cache_call c \<longleftrightarrow>
     c = FsAccess PARSING_CACHE \<or> c = ConsoleLog (Text ''No cache found'') \<or>
     c = FsReadFile PARSING_CACHE"

text \<open>The write of the cache \<open>cache\<close>.\<close>

definition cache_write :: "'d world \<Rightarrow> jsval \<Rightarrow> 'd call" where
  "cache_write w cache = FsWriteFile PARSING_CACHE (json_stringify w cache)"

text \<open>
  A list of calls is quiet when none of them fails, the existence check apart. A
  computation is sound when the calls it issues are quiet, or quiet up to the last one,
  which fails with the exception the computation ends with.
\<close>

definition quiet :: "'d world \<Rightarrow> 'd call list \<Rightarrow> bool" where
  "quiet w t = list_all (\<lambda>c. is_access c \<or> fault w c = None) t"

definition sound :: "'d world \<Rightarrow> ('d state \<Rightarrow> (exn + 'a) \<times> 'd state) \<Rightarrow> bool" where
  "sound w m \<longleftrightarrow>
     (\<forall>s. \<exists>t. calls (snd (m s)) = calls s @ t \<and>
        (quiet w t \<or>
         (\<exists>t0 c e. t = t0 @ [c] \<and> quiet w t0 \<and> \<not> is_access c \<and> fault w c = Some e \<and>
            fst (m s) = Inl e)))"

text \<open>
  A computation that leaves the files alone and issues only calls with the property
  \<open>P\<close>.
\<close>

definition only_calls :: "('d state \<Rightarrow> 'r \<times> 'd state) \<Rightarrow> ('d call \<Rightarrow> bool) \<Rightarrow> bool" where
  "only_calls m P \<longleftrightarrow> (\<forall>s. \<exists>t. snd (m s) = s\<lparr>calls := calls s @ t\<rparr> \<and> list_all P t)"

section \<open>An example world\<close>

text \<open>
  A world in which no call fails, for the concrete runs below: documents are named after
  their path, \<^verbatim>\<open>JSON.stringify\<close> is written out, and \<^verbatim>\<open>JSON.parse\<close> is a table of the texts
  that the runs read. \<open>exotic_truthy\<close> and \<open>exotic_assign\<close> have the values for a key that
  is no property of a wrapper object, as the path of the batch is, in strict mode.

  \<^verbatim>\<open>JSON.stringify\<close> (SerializeJSONProperty): \<open>NaN\<close> and the infinities print as \<open>null\<close>; a
  string is quoted, with the escapes of QuoteJSONString; an array prints its elements,
  \<open>undefined\<close> as \<open>null\<close>, and none of its other properties; an object prints its own
  properties whose value is not \<open>undefined\<close>, those with an array index as key first, in
  ascending order, then the others in the order of their creation. \<open>undefined\<close> itself
  has no text.
\<close>

definition hex_digit :: "nat \<Rightarrow> char" where
  "hex_digit n = ''0123456789abcdef'' ! n"

definition quote_char :: "char \<Rightarrow> string" where
  "quote_char c =
     (if c = CHR 0x22 then [CHR 0x5C, CHR 0x22]
      else if c = CHR 0x5C then [CHR 0x5C, CHR 0x5C]
      else if c = CHR 0x08 then [CHR 0x5C, CHR ''b'']
      else if c = CHR 0x09 then [CHR 0x5C, CHR ''t'']
      else if c = CHR 0x0A then [CHR 0x5C, CHR ''n'']
      else if c = CHR 0x0C then [CHR 0x5C, CHR ''f'']
      else if c = CHR 0x0D then [CHR 0x5C, CHR ''r'']
      else if of_char c < (32 :: nat)
        then CHR 0x5C # ''u00'' @ [hex_digit (of_char c div 16), hex_digit (of_char c mod 16)]
      else [c])"

definition quote :: "string \<Rightarrow> string" where
  "quote s = [CHR 0x22] @ concat (map quote_char s) @ [CHR 0x22]"

fun join :: "string \<Rightarrow> string list \<Rightarrow> string" where
  "join sep [] = []"
| "join sep [x] = x"
| "join sep (x # y # ys) = x @ sep @ join sep (y # ys)"

definition own_order :: "(string \<times> 'a) list \<Rightarrow> (string \<times> 'a) list" where
  "own_order ps =
     sort_key (\<lambda>e. case array_index (fst e) of Some i \<Rightarrow> i | None \<Rightarrow> 0)
       (filter (\<lambda>e. array_index (fst e) \<noteq> None) ps) @
     filter (\<lambda>e. array_index (fst e) = None) ps"

fun show_entry :: "string \<times> string option \<Rightarrow> string list" where
  "show_entry (k, Some text) = [quote k @ '':'' @ text]"
| "show_entry (k, None) = []"

fun serialize :: "jsval \<Rightarrow> string option"
  and serialize_elements :: "jsval list \<Rightarrow> string list"
  and serialize_entries :: "(string \<times> jsval) list \<Rightarrow> (string \<times> string option) list"
where
  "serialize JUndefined = None"
| "serialize JNull = Some ''null''"
| "serialize (JBool b) = Some (if b then ''true'' else ''false'')"
| "serialize (JNum x) = Some (case x of Fin q \<Rightarrow> number_to_string x | _ \<Rightarrow> ''null'')"
| "serialize (JStr s) = Some (quote s)"
| "serialize (JArray xs ps) = Some (''['' @ join '','' (serialize_elements xs) @ '']'')"
| "serialize (JObject ps) =
     Some (''{'' @
       join '','' (concat (map show_entry (own_order (AList.clearjunk (serialize_entries ps))))) @
       ''}'')"
| "serialize_elements [] = []"
| "serialize_elements (x # xs) =
     (case serialize x of Some text \<Rightarrow> text | None \<Rightarrow> ''null'') # serialize_elements xs"
| "serialize_entries [] = []"
| "serialize_entries (e # ps) = (fst e, serialize (snd e)) # serialize_entries ps"

text \<open>
  The scripts stringify the cache only, which is never \<open>undefined\<close> in the runs below.
\<close>

definition stringify0 :: "jsval \<Rightarrow> string" where
  "stringify0 v = (case serialize v of Some text \<Rightarrow> text | None \<Rightarrow> [])"

definition budget_pdf :: string where
  "budget_pdf = ''../data/sf_budget_2023_2024.pdf''"

definition old_pdf :: string where
  "old_pdf = ''../data/sf_budget_2022_2023.pdf''"

text \<open>
  \<open>parse0\<close> is \<^verbatim>\<open>JSON.parse\<close> on the texts the runs below read: the text of each of the
  values listed, from which \<^verbatim>\<open>JSON.parse\<close> gives the value back, and the malformed text
  \<open>{\<close>. It takes every text outside the list as malformed; no run below reads one but
  \<open>{\<close>.
\<close>

definition known_values :: "jsval list" where
  "known_values =
     [JObject [],
      JObject [(budget_pdf, JBool True)],
      JObject [(budget_pdf, JBool False)],
      JObject [(budget_pdf, JNum (Fin 1))],
      JObject [(old_pdf, JBool True)],
      JObject [(old_pdf, JBool True), (budget_pdf, JBool False)],
      JObject [(old_pdf, JBool True), (budget_pdf, JBool True)],
      JArray [] [],
      JNull]"

definition parse0 :: "string \<Rightarrow> jsval option" where
  "parse0 text = find (\<lambda>v. stringify0 v = text) known_values"

definition world0 :: "string world" where
  "world0 =
     \<lparr>openai_api_key = Some ''sk-example'',
      fault = (\<lambda>c. None),
      json_parse = parse0,
      json_stringify = stringify0,
      load_data = (\<lambda>p. [''document of '' @ p]),
      exotic_truthy = (\<lambda>v k. False),
      exotic_assign = (\<lambda>v k. Inl TypeError)\<rparr>"

text \<open>The same world with one failing call.\<close>

definition failing :: "string call \<Rightarrow> exn \<Rightarrow> string world" where
  "failing c e = world0\<lparr>fault := (\<lambda>c'. if c' = c then Some e else None)\<rparr>"

text \<open>Start states: no cache file, and a cache file with the given text.\<close>

definition no_cache :: "string state" where
  "no_cache = \<lparr>files = Map.empty, calls = []\<rparr>"

definition with_cache :: "string \<Rightarrow> string state" where
  "with_cache text = \<lparr>files = [PARSING_CACHE \<mapsto> text], calls = []\<rparr>"

section \<open>Evaluation of the number model\<close>

lemma floor_rat_numeral [simp]:
  "\<lfloor>numeral a / numeral b :: rat\<rfloor> = numeral a div numeral b"
  by (metis floor_divide_of_int_eq of_int_numeral)

lemma floor_rat_one_numeral [simp]:
  "\<lfloor>1 / numeral b :: rat\<rfloor> = 1 div numeral b"
  by (metis floor_divide_of_int_eq of_int_1 of_int_numeral)

lemmas num_eval =
  fl_def ulp_exp_def round_to_def magnitude_def ndigits.simps pow2_def pow10_def
  round_half_even_def candidates_def dist_def shortest.simps dec.simps

lemma fl_101: "fl 101 = Fin 101"
  by (simp add: num_eval)

lemma fl_303: "fl 303 = Fin 303"
  by (simp add: num_eval)

lemma fl_3200: "fl 3200 = Fin 3200"
  by (simp add: num_eval)

lemma fl_2012_5: "fl (4025 / 2) = Fin (4025 / 2)"
  by (simp add: num_eval)

lemma fl_404: "fl 404 = Fin 404"
  by (simp add: num_eval)

lemma fl_5212_5: "fl (10425 / 2) = Fin (10425 / 2)"
  by (simp add: num_eval)

lemma number_to_string_404: "number_to_string (Fin 404) = ''404''"
  by (simp add: num_eval)

lemma number_to_string_5212_5: "number_to_string (Fin (10425 / 2)) = ''5212.5''"
  by (simp add: num_eval)

lemma number_to_string_1: "number_to_string (Fin 1) = ''1''"
  by (simp add: num_eval)

section \<open>The additive tool function\<close>

text \<open>
  C2. For the numeric inputs \<open>a = 101\<close>, \<open>b = 303\<close> the value \<open>sumNumbers\<close> returns is the
  string \<open>"404"\<close>, and for \<open>a = 3200\<close>, \<open>b = 2012.5\<close> it is \<open>"5212.5"\<close>. The inputs are the
  Numbers the decimal literals denote (\<open>fl\<close> of their value).
\<close>

theorem sumNumbers_numbers:
  "sumNumbers (JNum (fl 101)) (JNum (fl 303)) = Inr ''404'' \<and>
   sumNumbers (JNum (fl 3200)) (JNum (fl (20125 / 10))) = Inr ''5212.5''"
  by (simp add: sumNumbers_def js_plus_def fl_101 fl_303 fl_3200 fl_2012_5 fl_404 fl_5212_5
      number_to_string_404 number_to_string_5212_5 del: number_to_string.simps)

text \<open>
  C8. \<open>sumNumbers\<close> does not check that its arguments are numbers: for any two strings it
  returns their concatenation, so \<open>"101"\<close> and \<open>"303"\<close> give \<open>"101303"\<close> and not \<open>"404"\<close>.
\<close>

theorem sumNumbers_strings:
  "sumNumbers (JStr a) (JStr b) = Inr (a @ b) \<and>
   sumNumbers (JStr ''101'') (JStr ''303'') = Inr ''101303'' \<and>
   sumNumbers (JStr ''101'') (JStr ''303'') \<noteq> Inr ''404''"
  by (simp add: sumNumbers_def js_plus_def)

section \<open>Tool schemas\<close>

text \<open>
  C5. For every tool descriptor constructed in the repository that carries a parameter
  schema, the names in the schema's \<open>required\<close> list are among the names declared in its
  \<open>properties\<close>.
\<close>

theorem required_subset_properties:
  "\<forall>t \<in> set all_tools. \<forall>sc. parameters (tool_metadata t) = Some sc \<longrightarrow>
     set (required sc) \<subseteq> fst ` set (properties sc)"
  by (auto simp: all_tools_def tools_agent_def tools_ollama_def tools_agentic_rag_def
      tools_rag_and_tools_def tools_qdrant_def sumNumbers_metadata_def budget_tool_metadata_def)

theorem required_subset_properties_witness:
  "FunctionTool sumNumbers sumNumbers_metadata \<in> set all_tools \<and>
   parameters (tool_metadata (FunctionTool sumNumbers sumNumbers_metadata)) =
     Some \<lparr>stype = ''object'',
         properties =
           [(''a'', \<lparr>ptype = ''number'', pdescription = ''First number to sum''\<rparr>),
            (''b'', \<lparr>ptype = ''number'', pdescription = ''Second number to sum''\<rparr>)],
         required = [''a'', ''b'']\<rparr> \<and>
   set [''a'', ''b''] \<subseteq>
     fst ` set [(''a'', \<lparr>ptype = ''number'', pdescription = ''First number to sum''\<rparr>),
                (''b'', \<lparr>ptype = ''number'', pdescription = ''Second number to sum''\<rparr>)]"
  using required_subset_properties
  by (simp add: all_tools_def tools_agent_def sumNumbers_metadata_def)

section \<open>Sequencing\<close>

lemma await_Inl: "m s = (Inl e, s') \<Longrightarrow> await m k s = (Inl e, s')"
  by (simp add: await_def)

lemma await_Inr: "m s = (Inr x, s') \<Longrightarrow> await m k s = k x s'"
  by (simp add: await_def)

section \<open>Loading the cache\<close>

text \<open>
  C4. If the cache file does not exist when the ingestion step starts, the failure of the
  existence check is not an error: the step goes on (after printing "No cache found") with
  the empty map as its cache.
\<close>

theorem missing_cache_is_empty_cache:
  assumes "files s PARSING_CACHE = None"
    and "fault w (ConsoleLog (Text ''No cache found'')) = None"
  shows "load_cache w s =
    (Inr (JObject []),
     s\<lparr>calls := calls s @ [FsAccess PARSING_CACHE, ConsoleLog (Text ''No cache found'')]\<rparr>)"
  using assms
  by (simp add: load_cache_def cache_exists_def fs_access_def await_def ext_def ret_def)

theorem missing_cache_is_empty_cache_witness:
  "files no_cache PARSING_CACHE = None \<and>
   fault world0 (ConsoleLog (Text ''No cache found'')) = None \<and>
   load_cache world0 no_cache =
     (Inr (JObject []),
      \<lparr>files = Map.empty,
       calls = [FsAccess ''./cache.json'', ConsoleLog (Text ''No cache found'')]\<rparr>)"
  using missing_cache_is_empty_cache [of no_cache world0]
  by (simp add: no_cache_def world0_def PARSING_CACHE_def)

section \<open>Calls and frames\<close>

lemma only_callsI:
  assumes "\<And>s. \<exists>t. snd (m s) = s\<lparr>calls := calls s @ t\<rparr> \<and> list_all P t"
  shows "only_calls m P"
  using assms unfolding only_calls_def by blast

lemma only_callsD:
  assumes "only_calls m P"
  obtains t where "snd (m s) = s\<lparr>calls := calls s @ t\<rparr>" "list_all P t"
  using assms unfolding only_calls_def by blast

lemma only_calls_ret: "only_calls (ret x) P"
  by (rule only_callsI) (simp add: ret_def exI [of _ "[]"])

lemma only_calls_throw: "only_calls (throw e) P"
  by (rule only_callsI) (simp add: throw_def exI [of _ "[]"])

lemma only_calls_ext: "P c \<Longrightarrow> only_calls (ext w c) P"
  by (rule only_callsI) (simp add: ext_def exI [of _ "[c]"])

lemma only_calls_await:
  assumes m: "only_calls m P" and k: "\<And>x. only_calls (k x) P"
  shows "only_calls (await m k) P"
proof (rule only_callsI)
  fix s
  obtain r s1 where ms: "m s = (r, s1)"
    by (cases "m s")
  from m obtain t1 where t1: "s1 = s\<lparr>calls := calls s @ t1\<rparr>" "list_all P t1"
    using ms by (auto elim: only_callsD [where s = s])
  show "\<exists>t. snd (await m k s) = s\<lparr>calls := calls s @ t\<rparr> \<and> list_all P t"
  proof (cases r)
    case (Inl e)
    with ms t1 show ?thesis
      by (auto simp: await_def)
  next
    case (Inr x)
    from k [of x] obtain t2 where t2: "snd (k x s1) = s1\<lparr>calls := calls s1 @ t2\<rparr>" "list_all P t2"
      by (auto elim: only_callsD [where s = s1])
    with ms t1 Inr show ?thesis
      by (intro exI [of _ "t1 @ t2"]) (simp add: await_def)
  qed
qed

lemma only_calls_steps: "list_all P cs \<Longrightarrow> only_calls (steps w cs) P"
  by (induction cs) (simp_all add: only_calls_ret only_calls_await only_calls_ext)

lemma only_calls_mono:
  assumes "only_calls m P" and "\<And>c. P c \<Longrightarrow> Q c"
  shows "only_calls m Q"
proof (rule only_callsI)
  fix s
  from assms(1) obtain t where "snd (m s) = s\<lparr>calls := calls s @ t\<rparr>" "list_all P t"
    by (auto elim: only_callsD [where s = s])
  with assms(2) show "\<exists>t. snd (m s) = s\<lparr>calls := calls s @ t\<rparr> \<and> list_all Q t"
    by (auto simp: list_all_iff)
qed

lemma only_calls_fs_access: "P (FsAccess p) \<Longrightarrow> only_calls (fs_access w p) P"
  by (rule only_callsI) (auto simp: fs_access_def ext_def split: option.splits intro: exI [of _ "[FsAccess p]"])

lemma only_calls_fs_readFile: "P (FsReadFile p) \<Longrightarrow> only_calls (fs_readFile w p) P"
  unfolding fs_readFile_def
  by (intro only_calls_await only_calls_ext only_callsI)
    (auto simp: throw_def ret_def split: option.splits intro: exI [of _ "[]"])

lemma only_calls_cache_exists: "only_calls (cache_exists w) cache_call"
proof (rule only_callsI)
  fix s :: "'a state"
  let ?s1 = "s\<lparr>calls := calls s @ [FsAccess PARSING_CACHE]\<rparr>"
  have s1: "snd (fs_access w PARSING_CACHE s) = ?s1"
    by (simp add: fs_access_def ext_def split: option.splits)
  show "\<exists>t. snd (cache_exists w s) = s\<lparr>calls := calls s @ t\<rparr> \<and> list_all cache_call t"
  proof (cases "fst (fs_access w PARSING_CACHE s)")
    case (Inr x)
    with s1 have "cache_exists w s = (Inr True, ?s1)"
      by (cases "fs_access w PARSING_CACHE s") (simp add: cache_exists_def ret_def)
    then show ?thesis
      by (intro exI [of _ "[FsAccess PARSING_CACHE]"]) (simp add: cache_call_def)
  next
    case (Inl e)
    with s1 have "cache_exists w s =
        await (ext w (ConsoleLog (Text ''No cache found''))) (\<lambda>_. ret False) ?s1"
      by (cases "fs_access w PARSING_CACHE s") (simp add: cache_exists_def)
    then show ?thesis
      by (intro exI [of _ "[FsAccess PARSING_CACHE, ConsoleLog (Text ''No cache found'')]"])
        (auto simp: await_def ext_def ret_def cache_call_def split: option.splits)
  qed
qed

lemma only_calls_load_cache: "only_calls (load_cache w) cache_call"
  unfolding load_cache_def
  by (intro only_calls_await only_calls_cache_exists)
    (auto intro!: only_calls_await only_calls_fs_readFile only_calls_ret only_calls_throw
      simp: cache_call_def split: option.splits)

lemma only_calls_parse_loop:
  "only_calls (parse_loop w batch cd) (\<lambda>c. \<exists>f \<in> set batch. c = LoadData f)"
proof (induction batch arbitrary: cd)
  case Nil
  show ?case by (cases cd) (simp add: only_calls_ret)
next
  case (Cons f rest)
  obtain cache docs where cd: "cd = (cache, docs)"
    by (cases cd)
  have IH: "only_calls (parse_loop w rest cd') (\<lambda>c. \<exists>g \<in> set (f # rest). c = LoadData g)" for cd'
    by (rule only_calls_mono [OF Cons.IH]) auto
  show ?case
  proof (cases "cache_has w cache f")
    case (Inl e)
    then show ?thesis by (simp add: cd only_calls_throw)
  next
    case (Inr b)
    show ?thesis
    proof (cases b)
      case True
      with Inr IH [of "(cache, docs)"] show ?thesis
        by (simp add: cd)
    next
      case False
      have "only_calls
          (case cache_mark w cache f of
             Inl e \<Rightarrow> throw e
           | Inr cache' \<Rightarrow> parse_loop w rest (cache', docs @ load_data w f))
          (\<lambda>c. \<exists>g \<in> set (f # rest). c = LoadData g)"
        by (cases "cache_mark w cache f") (simp_all only: sum.case only_calls_throw IH)
      then have "only_calls
          (await (ext w (LoadData f))
             (\<lambda>_. case cache_mark w cache f of
                     Inl e \<Rightarrow> throw e
                   | Inr cache' \<Rightarrow> parse_loop w rest (cache', docs @ load_data w f)))
          (\<lambda>c. \<exists>g \<in> set (f # rest). c = LoadData g)"
        by (intro only_calls_await only_calls_ext) simp_all
      with Inr False show ?thesis
        by (simp add: cd)
    qed
  qed
qed

section \<open>The loop over the batch\<close>

lemma cache_has_object:
  "cache_has w (JObject ps) f =
     Inr (case map_of ps f of Some v \<Rightarrow> truthy v | None \<Rightarrow> f \<in> set object_prototype_members)"
  by (simp add: cache_has_def)

lemma cache_mark_object:
  assumes "cache_has w (JObject ps) f = Inr False"
  shows "cache_mark w (JObject ps) f = Inr (JObject (AList.update f (JBool True) ps))"
proof -
  have "\<not> (f = ''__proto__'' \<and> map_of ps f = None)"
    using assms by (auto simp: cache_has_def object_prototype_members_def split: option.splits)
  then show ?thesis
    by (auto simp: cache_mark_def)
qed

lemma unmarked_not_true:
  "cache_has w (JObject ps) f = Inr False \<Longrightarrow> map_of ps f \<noteq> Some (JBool True)"
  by (auto simp: cache_has_def)

lemma ext_state: "snd (ext w c s) = s\<lparr>calls := calls s @ [c]\<rparr>"
  by (simp add: ext_def)

lemma ext_ok: "fault w c = None \<Longrightarrow> ext w c s = (Inr (), s\<lparr>calls := calls s @ [c]\<rparr>)"
  by (simp add: ext_def)

lemma ext_fail: "fault w c = Some e \<Longrightarrow> ext w c s = (Inl e, s\<lparr>calls := calls s @ [c]\<rparr>)"
  by (simp add: ext_def)

lemma parse_loop_object:
  "\<exists>t r. parse_loop w batch (JObject ps, docs) s = (r, s\<lparr>calls := calls s @ t\<rparr>) \<and>
     (\<forall>c \<in> set t. \<exists>f \<in> set batch. c = LoadData f \<and> map_of ps f \<noteq> Some (JBool True)) \<and>
     (\<forall>cache' docs'. r = Inr (cache', docs') \<longrightarrow>
        (\<exists>ps'. cache' = JObject ps' \<and>
           map_of ps' = (\<lambda>k. if LoadData k \<in> set t then Some (JBool True) else map_of ps k)))"
proof (induction batch arbitrary: ps docs s)
  case Nil
  show ?case
    by (rule exI [of _ "[]"]) (simp add: ret_def)
next
  case (Cons f rest)
  obtain b where b: "cache_has w (JObject ps) f = Inr b"
    by (simp add: cache_has_object)
  show ?case
  proof (cases b)
    case True
    from Cons.IH [of ps docs s] obtain t r where
      "parse_loop w rest (JObject ps, docs) s = (r, s\<lparr>calls := calls s @ t\<rparr>)"
      "\<forall>c \<in> set t. \<exists>f \<in> set rest. c = LoadData f \<and> map_of ps f \<noteq> Some (JBool True)"
      "\<forall>cache' docs'. r = Inr (cache', docs') \<longrightarrow>
        (\<exists>ps'. cache' = JObject ps' \<and>
           map_of ps' = (\<lambda>k. if LoadData k \<in> set t then Some (JBool True) else map_of ps k))"
      by blast
    with b True show ?thesis
      by (intro exI [of _ t] exI [of _ r]) auto
  next
    case False
    from b False have unmarked: "cache_has w (JObject ps) f = Inr False"
      by simp
    show ?thesis
    proof (cases "fault w (LoadData f)")
      case (Some e)
      have "parse_loop w (f # rest) (JObject ps, docs) s =
          (Inl e, s\<lparr>calls := calls s @ [LoadData f]\<rparr>)"
        using unmarked Some by (simp add: await_def ext_def)
      then show ?thesis
        using unmarked_not_true [OF unmarked]
        by (intro exI [of _ "[LoadData f]"] exI [of _ "Inl e"]) simp
    next
      case None
      let ?ps1 = "AList.update f (JBool True) ps"
      let ?s1 = "s\<lparr>calls := calls s @ [LoadData f]\<rparr>"
      have step: "parse_loop w (f # rest) (JObject ps, docs) s =
          parse_loop w rest (JObject ?ps1, docs @ load_data w f) ?s1"
        using unmarked None cache_mark_object [OF unmarked]
        by (simp add: await_def ext_def)
      from Cons.IH [of ?ps1 "docs @ load_data w f" ?s1] obtain t r where
        run: "parse_loop w rest (JObject ?ps1, docs @ load_data w f) ?s1 =
          (r, ?s1\<lparr>calls := calls ?s1 @ t\<rparr>)"
        and only: "\<forall>c \<in> set t. \<exists>g \<in> set rest. c = LoadData g \<and> map_of ?ps1 g \<noteq> Some (JBool True)"
        and res: "\<forall>cache' docs'. r = Inr (cache', docs') \<longrightarrow>
          (\<exists>ps'. cache' = JObject ps' \<and>
             map_of ps' = (\<lambda>k. if LoadData k \<in> set t then Some (JBool True) else map_of ?ps1 k))"
        by blast
      have 1: "parse_loop w (f # rest) (JObject ps, docs) s =
          (r, s\<lparr>calls := calls s @ (LoadData f # t)\<rparr>)"
        using step run by simp
      have 2: "\<forall>c \<in> set (LoadData f # t).
          \<exists>g \<in> set (f # rest). c = LoadData g \<and> map_of ps g \<noteq> Some (JBool True)"
        using only unmarked_not_true [OF unmarked]
        by (auto simp: update_conv' split: if_splits)
      have 3: "\<forall>cache' docs'. r = Inr (cache', docs') \<longrightarrow>
          (\<exists>ps'. cache' = JObject ps' \<and>
             map_of ps' =
               (\<lambda>k. if LoadData k \<in> set (LoadData f # t) then Some (JBool True) else map_of ps k))"
        using res by (auto simp: update_conv' fun_eq_iff)
      from 1 2 3 show ?thesis
        by blast
    qed
  qed
qed

text \<open>
  The paths parsed by a loop that completes are the paths of the batch for which the
  cache it starts from has no truthy entry.
\<close>

lemma cache_has_update:
  "cache_has w (JObject (AList.update g (JBool True) ps)) k = Inr False \<longleftrightarrow>
     k \<noteq> g \<and> cache_has w (JObject ps) k = Inr False"
  by (simp add: cache_has_object update_conv')

lemma parse_loop_parsed:
  assumes "parse_loop w batch (JObject ps, docs) s = (Inr r, s')"
  shows "parsed (issued (parse_loop w batch (JObject ps, docs)) s) =
    {k \<in> set batch. cache_has w (JObject ps) k = Inr False}"
  using assms
proof (induction batch arbitrary: ps docs s)
  case Nil
  show ?case
    by (simp add: parsed_def issued_def ret_def)
next
  case (Cons g rest)
  obtain b where b: "cache_has w (JObject ps) g = Inr b"
    by (simp add: cache_has_object)
  show ?case
  proof (cases b)
    case True
    with b have step: "parse_loop w (g # rest) (JObject ps, docs) =
        parse_loop w rest (JObject ps, docs)"
      by (simp add: fun_eq_iff)
    from Cons.prems have "parse_loop w rest (JObject ps, docs) s = (Inr r, s')"
      unfolding step .
    from Cons.IH [OF this] b True show ?thesis
      unfolding step by auto
  next
    case False
    with b have unmarked: "cache_has w (JObject ps) g = Inr False"
      by simp
    let ?ps1 = "AList.update g (JBool True) ps"
    let ?s1 = "s\<lparr>calls := calls s @ [LoadData g]\<rparr>"
    have ok: "fault w (LoadData g) = None"
    proof (rule ccontr)
      assume "fault w (LoadData g) \<noteq> None"
      then obtain e where "fault w (LoadData g) = Some e"
        by auto
      with unmarked have "fst (parse_loop w (g # rest) (JObject ps, docs) s) = Inl e"
        by (simp add: await_def ext_def)
      with Cons.prems show False
        by simp
    qed
    have step: "parse_loop w (g # rest) (JObject ps, docs) s =
        parse_loop w rest (JObject ?ps1, docs @ load_data w g) ?s1"
      using unmarked ok cache_mark_object [OF unmarked]
      by (simp add: await_def ext_def)
    with Cons.prems have rest:
      "parse_loop w rest (JObject ?ps1, docs @ load_data w g) ?s1 = (Inr r, s')"
      by simp
    from parse_loop_object [of w rest ?ps1 "docs @ load_data w g" ?s1] obtain t q where
      frame: "parse_loop w rest (JObject ?ps1, docs @ load_data w g) ?s1 =
        (q, ?s1\<lparr>calls := calls ?s1 @ t\<rparr>)"
      by blast
    have here: "issued (parse_loop w (g # rest) (JObject ps, docs)) s = LoadData g # t"
      unfolding issued_def step frame by simp
    have there: "issued (parse_loop w rest (JObject ?ps1, docs @ load_data w g)) ?s1 = t"
      unfolding issued_def frame by simp
    from Cons.IH [OF rest] have "parsed t = {k \<in> set rest. k \<noteq> g \<and> cache_has w (JObject ps) k = Inr False}"
      unfolding there cache_has_update .
    then have "parsed (LoadData g # t) =
        insert g {k \<in> set rest. k \<noteq> g \<and> cache_has w (JObject ps) k = Inr False}"
      by (auto simp: parsed_def)
    also have "\<dots> = {k \<in> set (g # rest). cache_has w (JObject ps) k = Inr False}"
      using unmarked by auto
    finally show ?thesis
      unfolding here .
  qed
qed

lemma load_cache_frame:
  obtains t0 where "snd (load_cache w s) = s\<lparr>calls := calls s @ t0\<rparr>" "list_all cache_call t0"
  using only_calls_load_cache [of w] by (auto elim: only_callsD [where s = s])

lemma load_cache_holds:
  assumes "cache_file_holds w s ps" and "load_cache w s = (Inr v, s1)"
  shows "v = JObject ps"
  using assms
  by (auto simp: cache_file_holds_def load_cache_def cache_exists_def fs_access_def
      fs_readFile_def await_def ext_def ret_def throw_def
      split: option.splits sum.splits if_splits prod.splits)

lemma fs_writeFile_ok:
  "fault w (FsWriteFile p text) = None \<Longrightarrow>
     fs_writeFile w p text s =
       (Inr (), s\<lparr>calls := calls s @ [FsWriteFile p text], files := (files s)(p \<mapsto> text)\<rparr>)"
  by (simp add: fs_writeFile_def await_def ext_def ret_def)

lemma fs_writeFile_fail:
  "fault w (FsWriteFile p text) = Some e \<Longrightarrow>
     fs_writeFile w p text s = (Inl e, s\<lparr>calls := calls s @ [FsWriteFile p text]\<rparr>)"
  by (simp add: fs_writeFile_def await_def ext_def)

lemma ingest_after_batch:
  assumes "parse_batch w batch s = (Inr (cache, documents), s')"
  shows "ingest w batch s =
    (case fault w (cache_write w cache) of
       Some e \<Rightarrow> (Inl e, s'\<lparr>calls := calls s' @ [cache_write w cache]\<rparr>)
     | None \<Rightarrow>
         (Inr (cache, documents),
          s'\<lparr>calls := calls s' @ [cache_write w cache],
             files := (files s')(PARSING_CACHE \<mapsto> json_stringify w cache)\<rparr>))"
  using assms
  by (auto simp: ingest_def await_def cache_write_def fs_writeFile_ok fs_writeFile_fail ret_def
      split: option.splits)

lemma ingest_batch_failed:
  assumes "parse_batch w batch s = (Inl e, s')"
  shows "ingest w batch s = (Inl e, s')"
  using assms by (simp add: ingest_def await_def)

lemma parse_loop_keeps_marked:
  assumes run: "parse_loop w batch (JObject ps, docs) s = (Inr (JObject ps', docs'), s')"
    and marked: "cache_has w (JObject ps) f = Inr True"
  shows "cache_has w (JObject ps') f = Inr True"
proof -
  from parse_loop_object [of w batch ps docs s] obtain t r where
    eq: "parse_loop w batch (JObject ps, docs) s = (r, s\<lparr>calls := calls s @ t\<rparr>)"
    and res: "\<forall>cache' docs'. r = Inr (cache', docs') \<longrightarrow>
        (\<exists>ps'. cache' = JObject ps' \<and>
           map_of ps' = (\<lambda>k. if LoadData k \<in> set t then Some (JBool True) else map_of ps k))"
    by blast
  from eq run have "r = Inr (JObject ps', docs')"
    by simp
  with res have m: "map_of ps' = (\<lambda>k. if LoadData k \<in> set t then Some (JBool True) else map_of ps k)"
    by auto
  from marked show ?thesis
    unfolding cache_has_object m by simp
qed

lemma parse_loop_marks_batch:
  assumes "parse_loop w batch (JObject ps, docs) s = (Inr (JObject ps', docs'), s')"
    and "f \<in> set batch"
  shows "cache_has w (JObject ps') f = Inr True"
  using assms
proof (induction batch arbitrary: ps docs s)
  case Nil
  then show ?case by simp
next
  case (Cons g rest)
  obtain b where b: "cache_has w (JObject ps) g = Inr b"
    by (simp add: cache_has_object)
  show ?case
  proof (cases b)
    case True
    with b Cons.prems(1) have rest:
      "parse_loop w rest (JObject ps, docs) s = (Inr (JObject ps', docs'), s')"
      by simp
    show ?thesis
    proof (cases "f = g")
      case True
      with b \<open>b\<close> parse_loop_keeps_marked [OF rest] show ?thesis
        by simp
    next
      case False
      with Cons.prems(2) Cons.IH [OF rest] show ?thesis
        by simp
    qed
  next
    case False
    with b have unmarked: "cache_has w (JObject ps) g = Inr False"
      by simp
    let ?ps1 = "AList.update g (JBool True) ps"
    let ?s1 = "s\<lparr>calls := calls s @ [LoadData g]\<rparr>"
    have ok: "fault w (LoadData g) = None"
    proof (rule ccontr)
      assume "fault w (LoadData g) \<noteq> None"
      then obtain e where "fault w (LoadData g) = Some e"
        by auto
      with unmarked have "fst (parse_loop w (g # rest) (JObject ps, docs) s) = Inl e"
        by (simp add: await_def ext_def)
      with Cons.prems(1) show False
        by simp
    qed
    have "parse_loop w (g # rest) (JObject ps, docs) s =
        parse_loop w rest (JObject ?ps1, docs @ load_data w g) ?s1"
      using unmarked ok cache_mark_object [OF unmarked]
      by (simp add: await_def ext_def)
    with Cons.prems(1) have rest:
      "parse_loop w rest (JObject ?ps1, docs @ load_data w g) ?s1 = (Inr (JObject ps', docs'), s')"
      by simp
    show ?thesis
    proof (cases "f = g")
      case True
      have "cache_has w (JObject ?ps1) g = Inr True"
        by (simp add: cache_has_object update_conv')
      with True parse_loop_keeps_marked [OF rest] show ?thesis
        by simp
    next
      case False
      with Cons.prems(2) Cons.IH [OF rest] show ?thesis
        by simp
    qed
  qed
qed

lemma marked_boolean:
  assumes "boolean_entries ps"
    and "map_of ps' = (\<lambda>k. if LoadData k \<in> set t then Some (JBool True) else map_of ps k)"
    and "cache_has w (JObject ps') f = Inr True"
    and "f \<notin> set object_prototype_members"
  shows "map_of ps' f = Some (JBool True)"
proof (cases "LoadData f \<in> set (t :: 'a call list)")
  case True
  with assms(2) show ?thesis by simp
next
  case False
  with assms(2) have eq: "map_of ps' f = map_of ps f"
    by simp
  with assms(3,4) obtain v where v: "map_of ps f = Some v" "truthy v"
    by (auto simp: cache_has_object split: option.splits)
  then have "(f, v) \<in> set ps"
    by (auto dest: map_of_SomeD)
  with assms(1) have "v = JBool True \<or> v = JBool False"
    by (auto simp: boolean_entries_def list_all_iff)
  with v eq show ?thesis
    by auto
qed

text \<open>The runs of \<open>parse_batch\<close> from a cache that is an object.\<close>

lemma parse_batch_object:
  assumes lc: "load_cache w s = (Inr (JObject ps), s1)"
  shows "\<exists>t0 t r.
    parse_batch w batch s = (r, s\<lparr>calls := calls s @ t0 @ t\<rparr>) \<and>
    list_all cache_call t0 \<and>
    (\<forall>c \<in> set t. c = NewLlamaParseReader ''markdown'' \<or>
       (\<exists>f \<in> set batch. c = LoadData f \<and> map_of ps f \<noteq> Some (JBool True))) \<and>
    (\<forall>cache' docs'. r = Inr (cache', docs') \<longrightarrow>
       (\<exists>ps'. cache' = JObject ps' \<and>
          map_of ps' = (\<lambda>k. if LoadData k \<in> set t then Some (JBool True) else map_of ps k) \<and>
          (\<forall>f \<in> set batch. cache_has w cache' f = Inr True) \<and>
          parsed t = {k \<in> set batch. cache_has w (JObject ps) k = Inr False}))"
proof -
  obtain t0 where t0: "s1 = s\<lparr>calls := calls s @ t0\<rparr>" "list_all cache_call t0"
    using load_cache_frame [of w s] lc by auto
  let ?reader = "NewLlamaParseReader ''markdown'' :: 'a call"
  let ?s2 = "s1\<lparr>calls := calls s1 @ [?reader]\<rparr>"
  show ?thesis
  proof (cases "fault w ?reader")
    case (Some e)
    then have "parse_batch w batch s = (Inl e, s\<lparr>calls := calls s @ t0 @ [?reader]\<rparr>)"
      using lc t0 by (simp add: parse_batch_def await_def ext_def)
    then show ?thesis
      using t0 by (intro exI [of _ t0] exI [of _ "[?reader]"] exI [of _ "Inl e"]) simp
  next
    case None
    then have pb: "parse_batch w batch s = parse_loop w batch (JObject ps, []) ?s2"
      using lc by (simp add: parse_batch_def await_def ext_def)
    from parse_loop_object [of w batch ps "[]" ?s2] obtain t r where
      run: "parse_loop w batch (JObject ps, []) ?s2 = (r, ?s2\<lparr>calls := calls ?s2 @ t\<rparr>)"
      and only: "\<forall>c \<in> set t. \<exists>f \<in> set batch. c = LoadData f \<and> map_of ps f \<noteq> Some (JBool True)"
      and res: "\<forall>cache' docs'. r = Inr (cache', docs') \<longrightarrow>
        (\<exists>ps'. cache' = JObject ps' \<and>
           map_of ps' = (\<lambda>k. if LoadData k \<in> set t then Some (JBool True) else map_of ps k))"
      by blast
    have 1: "parse_batch w batch s = (r, s\<lparr>calls := calls s @ t0 @ (?reader # t)\<rparr>)"
      using pb run t0 by simp
    have 2: "\<forall>c \<in> set (?reader # t). c = ?reader \<or>
       (\<exists>f \<in> set batch. c = LoadData f \<and> map_of ps f \<noteq> Some (JBool True))"
      using only by auto
    have 3: "\<forall>cache' docs'. r = Inr (cache', docs') \<longrightarrow>
       (\<exists>ps'. cache' = JObject ps' \<and>
          map_of ps' =
            (\<lambda>k. if LoadData k \<in> set (?reader # t) then Some (JBool True) else map_of ps k) \<and>
          (\<forall>f \<in> set batch. cache_has w cache' f = Inr True) \<and>
          parsed (?reader # t) = {k \<in> set batch. cache_has w (JObject ps) k = Inr False})"
    proof (intro allI impI)
      fix cache' docs'
      assume r: "r = Inr (cache', docs')"
      with res obtain ps' where ps': "cache' = JObject ps'"
        "map_of ps' = (\<lambda>k. if LoadData k \<in> set t then Some (JBool True) else map_of ps k)"
        by blast
      have "\<forall>f \<in> set batch. cache_has w (JObject ps') f = Inr True"
        using parse_loop_marks_batch [OF run [unfolded r ps'(1)]] by blast
      moreover have "issued (parse_loop w batch (JObject ps, [])) ?s2 = t"
        unfolding issued_def run by simp
      with parse_loop_parsed [OF run [unfolded r]]
      have "parsed (?reader # t) = {k \<in> set batch. cache_has w (JObject ps) k = Inr False}"
        by (simp add: parsed_def)
      ultimately show "\<exists>ps'. cache' = JObject ps' \<and>
          map_of ps' =
            (\<lambda>k. if LoadData k \<in> set (?reader # t) then Some (JBool True) else map_of ps k) \<and>
          (\<forall>f \<in> set batch. cache_has w cache' f = Inr True) \<and>
          parsed (?reader # t) = {k \<in> set batch. cache_has w (JObject ps) k = Inr False}"
        using ps' by simp
    qed
    from 1 t0(2) 2 3 show ?thesis
      by blast
  qed
qed

lemma not_load_cache_call: "list_all cache_call t0 \<Longrightarrow> LoadData k \<notin> set t0"
  by (auto simp: list_all_iff cache_call_def)

lemma issued_frame: "snd (m s) = s\<lparr>calls := calls s @ t\<rparr> \<Longrightarrow> issued m s = t"
  by (simp add: issued_def)

lemma issued_eq: "m s = (r, s\<lparr>calls := calls s @ t\<rparr>) \<Longrightarrow> issued m s = t"
  by (simp add: issued_def)

lemma parse_batch_load_failed:
  "load_cache w s = (Inl e, s1) \<Longrightarrow> parse_batch w batch s = (Inl e, s1)"
  by (simp add: parse_batch_def await_def)

text \<open>The runs of the ingestion step from a cache that is an object.\<close>

lemma ingest_object:
  assumes lc: "load_cache w s = (Inr (JObject ps), s1)"
  obtains
    (stopped) t0 t e where
      "ingest w batch s = (Inl e, s\<lparr>calls := calls s @ t0 @ t\<rparr>)"
      "issued (ingest w batch) s = t0 @ t"
      "list_all cache_call t0"
      "\<forall>c \<in> set t. c = NewLlamaParseReader ''markdown'' \<or>
         (\<exists>f \<in> set batch. c = LoadData f \<and> map_of ps f \<noteq> Some (JBool True))"
  | (write_failed) t0 t ps' e where
      "ingest w batch s = (Inl e, s\<lparr>calls := calls s @ t0 @ t @ [cache_write w (JObject ps')]\<rparr>)"
      "issued (ingest w batch) s = t0 @ t @ [cache_write w (JObject ps')]"
      "fault w (cache_write w (JObject ps')) = Some e"
      "list_all cache_call t0"
      "\<forall>c \<in> set t. c = NewLlamaParseReader ''markdown'' \<or>
         (\<exists>f \<in> set batch. c = LoadData f \<and> map_of ps f \<noteq> Some (JBool True))"
  | (written) t0 t ps' docs where
      "ingest w batch s =
         (Inr (JObject ps', docs),
          s\<lparr>calls := calls s @ t0 @ t @ [cache_write w (JObject ps')],
            files := (files s)(PARSING_CACHE \<mapsto> json_stringify w (JObject ps'))\<rparr>)"
      "issued (ingest w batch) s = t0 @ t @ [cache_write w (JObject ps')]"
      "fault w (cache_write w (JObject ps')) = None"
      "list_all cache_call t0"
      "\<forall>c \<in> set t. c = NewLlamaParseReader ''markdown'' \<or>
         (\<exists>f \<in> set batch. c = LoadData f \<and> map_of ps f \<noteq> Some (JBool True))"
      "map_of ps' = (\<lambda>k. if LoadData k \<in> set t then Some (JBool True) else map_of ps k)"
      "\<forall>f \<in> set batch. cache_has w (JObject ps') f = Inr True"
      "parsed t = {k \<in> set batch. cache_has w (JObject ps) k = Inr False}"
proof -
  from parse_batch_object [OF lc, of batch] obtain t0 t r where
    pb: "parse_batch w batch s = (r, s\<lparr>calls := calls s @ t0 @ t\<rparr>)"
    and t0: "list_all cache_call t0"
    and t: "\<forall>c \<in> set t. c = NewLlamaParseReader ''markdown'' \<or>
       (\<exists>f \<in> set batch. c = LoadData f \<and> map_of ps f \<noteq> Some (JBool True))"
    and res: "\<forall>cache' docs'. r = Inr (cache', docs') \<longrightarrow>
       (\<exists>ps'. cache' = JObject ps' \<and>
          map_of ps' = (\<lambda>k. if LoadData k \<in> set t then Some (JBool True) else map_of ps k) \<and>
          (\<forall>f \<in> set batch. cache_has w cache' f = Inr True) \<and>
          parsed t = {k \<in> set batch. cache_has w (JObject ps) k = Inr False})"
    by blast
  show thesis
  proof (cases r)
    case (Inl e)
    with pb have i: "ingest w batch s = (Inl e, s\<lparr>calls := calls s @ t0 @ t\<rparr>)"
      by (simp add: ingest_batch_failed)
    have "issued (ingest w batch) s = t0 @ t"
      using i by (simp add: issued_def)
    with i show thesis
      using t0 t by (rule stopped)
  next
    case (Inr cd)
    obtain cache' docs where cd: "cd = (cache', docs)"
      by (cases cd)
    with res Inr obtain ps' where ps': "cache' = JObject ps'"
      "map_of ps' = (\<lambda>k. if LoadData k \<in> set t then Some (JBool True) else map_of ps k)"
      "\<forall>f \<in> set batch. cache_has w cache' f = Inr True"
      "parsed t = {k \<in> set batch. cache_has w (JObject ps) k = Inr False}"
      by blast
    have pb': "parse_batch w batch s = (Inr (JObject ps', docs), s\<lparr>calls := calls s @ t0 @ t\<rparr>)"
      using pb Inr cd ps'(1) by simp
    show thesis
    proof (cases "fault w (cache_write w (JObject ps'))")
      case (Some e)
      have i: "ingest w batch s =
          (Inl e, s\<lparr>calls := calls s @ t0 @ t @ [cache_write w (JObject ps')]\<rparr>)"
        using ingest_after_batch [OF pb'] Some by simp
      have "issued (ingest w batch) s = t0 @ t @ [cache_write w (JObject ps')]"
        using i by (simp add: issued_def)
      with i show thesis
        using Some t0 t by (rule write_failed)
    next
      case None
      have i: "ingest w batch s =
         (Inr (JObject ps', docs),
          s\<lparr>calls := calls s @ t0 @ t @ [cache_write w (JObject ps')],
            files := (files s)(PARSING_CACHE \<mapsto> json_stringify w (JObject ps'))\<rparr>)"
        using ingest_after_batch [OF pb'] None by simp
      have "issued (ingest w batch) s = t0 @ t @ [cache_write w (JObject ps')]"
        using i by (simp add: issued_def)
      with i show thesis
        using None t0 t ps'(2) ps'(3) [unfolded ps'(1)] ps'(4) by (rule written)
    qed
  qed
qed

text \<open>
  C3. A path that the in-memory cache maps to \<open>true\<close> is skipped: the loop issues no
  parsing call for it, from whatever point of the batch it is so marked, and neither does
  the ingestion step when the cache it loaded marks it.
\<close>

theorem marked_path_is_skipped:
  assumes "map_of ps p = Some (JBool True)"
  shows "LoadData p \<notin> set (issued (parse_loop w batch (JObject ps, documents)) s) \<and>
    (load_cache w s0 = (Inr (JObject ps), s1) \<longrightarrow>
       LoadData p \<notin> set (issued (ingest w batch) s0))"
proof
  from parse_loop_object [of w batch ps documents s] obtain t r where
    "parse_loop w batch (JObject ps, documents) s = (r, s\<lparr>calls := calls s @ t\<rparr>)"
    "\<forall>c \<in> set t. \<exists>f \<in> set batch. c = LoadData f \<and> map_of ps f \<noteq> Some (JBool True)"
    by blast
  with assms show "LoadData p \<notin> set (issued (parse_loop w batch (JObject ps, documents)) s)"
    by (auto simp: issued_def)
next
  show "load_cache w s0 = (Inr (JObject ps), s1) \<longrightarrow>
       LoadData p \<notin> set (issued (ingest w batch) s0)"
  proof
    assume lc: "load_cache w s0 = (Inr (JObject ps), s1)"
    show "LoadData p \<notin> set (issued (ingest w batch) s0)"
      using lc
    proof (cases rule: ingest_object [where batch = batch])
      case (stopped t0 t e)
      from stopped(4) assms have "LoadData p \<notin> set t"
        by auto
      with stopped(2) not_load_cache_call [OF stopped(3), of p] show ?thesis
        by simp
    next
      case (write_failed t0 t ps' e)
      from write_failed(5) assms have "LoadData p \<notin> set t"
        by auto
      with write_failed(2) not_load_cache_call [OF write_failed(4), of p] show ?thesis
        by (simp add: cache_write_def)
    next
      case (written t0 t ps' docs)
      from written(5) assms have "LoadData p \<notin> set t"
        by auto
      with written(2) not_load_cache_call [OF written(4), of p] show ?thesis
        by (simp add: cache_write_def)
    qed
  qed
qed

text \<open>
  For a cache of boolean entries the paths marked in a run are those of the whole batch:
  a path that is skipped was \<open>true\<close> already.
\<close>

lemma written_cache_marks_batch:
  assumes holds: "cache_file_holds w s ps" and bools: "boolean_entries ps"
    and own: "set batch \<inter> set object_prototype_members = {}"
    and run: "ingest w batch s = (Inr (JObject ps', documents), s')"
  shows "map_of ps' = map_of ps ++ (\<lambda>k. if k \<in> set batch then Some (JBool True) else None)"
proof -
  obtain r0 s1 where lc: "load_cache w s = (r0, s1)"
    by (cases "load_cache w s")
  have "r0 = Inr (JObject ps)"
  proof (cases r0)
    case (Inl e)
    with lc run show ?thesis
      by (simp add: ingest_batch_failed [OF parse_batch_load_failed])
  next
    case (Inr v)
    with lc load_cache_holds [OF holds] show ?thesis
      by simp
  qed
  with lc have "load_cache w s = (Inr (JObject ps), s1)"
    by simp
  then show ?thesis
  proof (cases rule: ingest_object [where batch = batch])
    case (stopped t0 t e)
    from stopped(1) run show ?thesis by simp
  next
    case (write_failed t0 t qs e)
    from write_failed(1) run show ?thesis by simp
  next
    case (written t0 t qs docs)
    from written(1) run have eq: "qs = ps'"
      by simp
    have m: "map_of ps' = (\<lambda>k. if LoadData k \<in> set t then Some (JBool True) else map_of ps k)"
      using written(6) unfolding eq .
    have marked: "map_of ps' f = Some (JBool True)" if "f \<in> set batch" for f
    proof -
      from that written(7) have "cache_has w (JObject ps') f = Inr True"
        unfolding eq by blast
      moreover from that own have "f \<notin> set object_prototype_members"
        by auto
      ultimately show ?thesis
        by (rule marked_boolean [OF bools m])
    qed
    have other: "map_of ps' k = map_of ps k" if "k \<notin> set batch" for k
    proof -
      from that written(5) have "LoadData k \<notin> set t"
        by auto
      with m show ?thesis
        by simp
    qed
    show ?thesis
      by (rule ext) (simp add: map_add_def marked other)
  qed
qed

text \<open>
  The cache a completed ingestion step returns, when the cache file is absent or holds an
  object: the object with the startup entries and \<open>true\<close> for the paths of the batch that
  had no truthy entry, which are the paths parsed.
\<close>

lemma ingest_written:
  assumes holds: "cache_file_holds w s ps"
    and run: "ingest w batch s = (Inr (cache', documents), s')"
  shows "\<exists>ps'. cache' = JObject ps' \<and>
    parsed (issued (ingest w batch) s) =
      {k \<in> set batch. cache_has w (JObject ps) k = Inr False} \<and>
    map_of ps' =
      (\<lambda>k. if k \<in> set batch \<and> cache_has w (JObject ps) k = Inr False
           then Some (JBool True) else map_of ps k) \<and>
    (\<forall>f \<in> set batch. cache_has w (JObject ps') f = Inr True)"
proof -
  obtain r0 s1 where lc: "load_cache w s = (r0, s1)"
    by (cases "load_cache w s")
  have "r0 = Inr (JObject ps)"
  proof (cases r0)
    case (Inl e)
    with lc run show ?thesis
      by (simp add: ingest_batch_failed [OF parse_batch_load_failed])
  next
    case (Inr v)
    with lc load_cache_holds [OF holds] show ?thesis
      by simp
  qed
  with lc have "load_cache w s = (Inr (JObject ps), s1)"
    by simp
  then show ?thesis
  proof (cases rule: ingest_object [where batch = batch])
    case (stopped t0 t e)
    from stopped(1) run show ?thesis by simp
  next
    case (write_failed t0 t ps' e)
    from write_failed(1) run show ?thesis by simp
  next
    case (written t0 t ps' docs)
    have "LoadData k \<in> set (t0 @ t @ [cache_write w (JObject ps')]) \<longleftrightarrow> LoadData k \<in> set t" for k
      using not_load_cache_call [OF written(4), of k] by (auto simp: cache_write_def)
    then have "parsed (issued (ingest w batch) s) = parsed t"
      unfolding parsed_def written(2) by simp
    then have p: "parsed (issued (ingest w batch) s) =
        {k \<in> set batch. cache_has w (JObject ps) k = Inr False}"
      unfolding written(8) .
    have "LoadData k \<in> set t \<longleftrightarrow> k \<in> set batch \<and> cache_has w (JObject ps) k = Inr False" for k
      using written(8) by (auto simp: parsed_def)
    then have m: "map_of ps' =
        (\<lambda>k. if k \<in> set batch \<and> cache_has w (JObject ps) k = Inr False
             then Some (JBool True) else map_of ps k)"
      unfolding written(6) by simp
    from written(1) run have c: "cache' = JObject ps'"
      by simp
    from c p m written(7) show ?thesis
      by blast
  qed
qed

lemma ingest_file:
  assumes "ingest w batch s = (Inr (cache', documents), s')"
  shows "files s' PARSING_CACHE = Some (json_stringify w cache')"
proof (cases "parse_batch w batch s")
  case (Pair r s1)
  show ?thesis
  proof (cases r)
    case (Inl e)
    with Pair assms show ?thesis
      by (simp add: ingest_batch_failed)
  next
    case (Inr cd)
    obtain cache docs where "cd = (cache, docs)"
      by (cases cd)
    with Pair Inr have "parse_batch w batch s = (Inr (cache, docs), s1)"
      by simp
    from ingest_after_batch [OF this] assms show ?thesis
      by (auto split: option.splits)
  qed
qed

text \<open>
  C1, amended. When the cache file is absent, or can be accessed and holds a JSON object,
  and the ingestion step has processed the batch and written the cache: the object
  written holds the entries the cache file had at startup, overridden by \<open>true\<close> for
  exactly the paths parsed in this run, and these are the paths of the batch that had no
  truthy entry at startup. Reading any path of the batch in the object written gives a
  truthy value. When moreover the entries at startup are booleans (and no path of the
  batch names a member of \<^verbatim>\<open>Object.prototype\<close>), the object written is the startup entries
  overridden by \<open>true\<close> for every path of the batch.
\<close>

theorem written_cache_entries:
  assumes holds: "cache_file_holds w s ps"
    and run: "ingest w batch s = (Inr (cache', documents), s')"
  shows "\<exists>ps'. cache' = JObject ps' \<and>
    files s' PARSING_CACHE = Some (json_stringify w (JObject ps')) \<and>
    parsed (issued (ingest w batch) s) =
      {k \<in> set batch. cache_has w (JObject ps) k = Inr False} \<and>
    map_of ps' =
      map_of ps ++
        (\<lambda>k. if k \<in> parsed (issued (ingest w batch) s) then Some (JBool True) else None) \<and>
    (\<forall>f \<in> set batch. cache_has w (JObject ps') f = Inr True) \<and>
    (boolean_entries ps \<and> set batch \<inter> set object_prototype_members = {} \<longrightarrow>
       map_of ps' = map_of ps ++ (\<lambda>k. if k \<in> set batch then Some (JBool True) else None))"
proof -
  from ingest_written [OF holds run] obtain ps' where c: "cache' = JObject ps'"
    and p: "parsed (issued (ingest w batch) s) =
      {k \<in> set batch. cache_has w (JObject ps) k = Inr False}"
    and m: "map_of ps' =
      (\<lambda>k. if k \<in> set batch \<and> cache_has w (JObject ps) k = Inr False
           then Some (JBool True) else map_of ps k)"
    and truthy: "\<forall>f \<in> set batch. cache_has w (JObject ps') f = Inr True"
    by blast
  have f: "files s' PARSING_CACHE = Some (json_stringify w (JObject ps'))"
    using ingest_file [OF run] c by simp
  have m': "map_of ps' =
      map_of ps ++
        (\<lambda>k. if k \<in> {k \<in> set batch. cache_has w (JObject ps) k = Inr False}
             then Some (JBool True) else None)"
    unfolding m by (auto simp: fun_eq_iff map_add_def)
  have b: "map_of ps' = map_of ps ++ (\<lambda>k. if k \<in> set batch then Some (JBool True) else None)"
    if "boolean_entries ps" and "set batch \<inter> set object_prototype_members = {}"
    using written_cache_marks_batch [OF holds that run [unfolded c]] .
  show ?thesis
    unfolding p using c f m' truthy b by blast
qed

lemma only_calls_parse_batch: "only_calls (parse_batch w batch) (\<lambda>c. \<not> is_write c)"
  unfolding parse_batch_def
proof (intro only_calls_await only_calls_ext)
  show "only_calls (load_cache w) (\<lambda>c. \<not> is_write c)"
    by (rule only_calls_mono [OF only_calls_load_cache]) (auto simp: cache_call_def)
  show "only_calls (parse_loop w batch (x, [])) (\<lambda>c. \<not> is_write c)" for x
    by (rule only_calls_mono [OF only_calls_parse_loop]) auto
qed simp

text \<open>
  C7. Whenever the loop over the batch completes, the ingestion step issues exactly one
  write of the cache file, as its last call, with the cache as the loop left it; nothing
  is asked about what was parsed, so the write also happens when no file was.
\<close>

theorem cache_written_once:
  assumes "parse_batch w batch s = (Inr (cache, documents), s')"
  shows "filter is_write (issued (ingest w batch) s) =
      [FsWriteFile PARSING_CACHE (json_stringify w cache)] \<and>
    last (issued (ingest w batch) s) = FsWriteFile PARSING_CACHE (json_stringify w cache) \<and>
    (fault w (FsWriteFile PARSING_CACHE (json_stringify w cache)) = None \<longrightarrow>
       files (snd (ingest w batch s)) PARSING_CACHE = Some (json_stringify w cache))"
proof -
  from only_calls_parse_batch [of w batch] obtain t where
    t: "snd (parse_batch w batch s) = s\<lparr>calls := calls s @ t\<rparr>" "list_all (\<lambda>c. \<not> is_write c) t"
    by (auto elim: only_callsD [where s = s])
  with assms have s': "s' = s\<lparr>calls := calls s @ t\<rparr>"
    by simp
  have i: "issued (ingest w batch) s = t @ [cache_write w cache]"
    using ingest_after_batch [OF assms] s'
    by (auto simp: issued_def split: option.splits)
  have "filter is_write t = []"
    using t(2) by (auto simp: list_all_iff filter_empty_conv)
  with i show ?thesis
    using ingest_after_batch [OF assms]
    by (auto simp: cache_write_def split: option.splits)
qed

section \<open>Failures\<close>

lemma quiet_Nil [simp]: "quiet w []"
  by (simp add: quiet_def)

lemma quiet_append [simp]: "quiet w (t @ u) \<longleftrightarrow> quiet w t \<and> quiet w u"
  by (simp add: quiet_def)

lemma quiet_single: "quiet w [c] \<longleftrightarrow> is_access c \<or> fault w c = None"
  by (simp add: quiet_def)

lemma soundI:
  assumes "\<And>s. \<exists>t. calls (snd (m s)) = calls s @ t \<and>
        (quiet w t \<or>
         (\<exists>t0 c e. t = t0 @ [c] \<and> quiet w t0 \<and> \<not> is_access c \<and> fault w c = Some e \<and>
            fst (m s) = Inl e))"
  shows "sound w m"
  using assms unfolding sound_def by blast

lemma sound_ret: "sound w (ret x)"
  by (rule soundI) (simp add: ret_def)

lemma sound_throw: "sound w (throw e)"
  by (rule soundI) (simp add: throw_def)

lemma sound_ext: "sound w (ext w c)"
proof (rule soundI)
  fix s :: "'a state"
  show "\<exists>t. calls (snd (ext w c s)) = calls s @ t \<and>
        (quiet w t \<or>
         (\<exists>t0 c' e. t = t0 @ [c'] \<and> quiet w t0 \<and> \<not> is_access c' \<and> fault w c' = Some e \<and>
            fst (ext w c s) = Inl e))"
    by (rule exI [of _ "[c]"]) (auto simp: ext_def quiet_single)
qed

lemma sound_await:
  assumes m: "sound w m" and k: "\<And>x. sound w (k x)"
  shows "sound w (await m k)"
proof (rule soundI)
  fix s
  obtain r s1 where ms: "m s = (r, s1)"
    by (cases "m s")
  from m [unfolded sound_def, rule_format, of s] ms obtain t1 where
    t1: "calls s1 = calls s @ t1"
    and c1: "quiet w t1 \<or>
      (\<exists>t0 c e. t1 = t0 @ [c] \<and> quiet w t0 \<and> \<not> is_access c \<and> fault w c = Some e \<and> r = Inl e)"
    by auto
  show "\<exists>t. calls (snd (await m k s)) = calls s @ t \<and>
        (quiet w t \<or>
         (\<exists>t0 c e. t = t0 @ [c] \<and> quiet w t0 \<and> \<not> is_access c \<and> fault w c = Some e \<and>
            fst (await m k s) = Inl e))"
  proof (cases r)
    case (Inl e)
    with ms have "await m k s = (Inl e, s1)"
      by (simp add: await_def)
    with t1 c1 Inl show ?thesis
      by (intro exI [of _ t1]) auto
  next
    case (Inr x)
    with ms have a: "await m k s = k x s1"
      by (simp add: await_def)
    from c1 Inr have q1: "quiet w t1"
      by auto
    from k [of x, unfolded sound_def, rule_format, of s1] obtain t2 where
      t2: "calls (snd (k x s1)) = calls s1 @ t2"
      and c2: "quiet w t2 \<or>
        (\<exists>t0 c e. t2 = t0 @ [c] \<and> quiet w t0 \<and> \<not> is_access c \<and> fault w c = Some e \<and>
           fst (k x s1) = Inl e)"
      by auto
    from c2 show ?thesis
    proof
      assume "quiet w t2"
      with q1 t1 t2 a show ?thesis
        by (intro exI [of _ "t1 @ t2"]) simp
    next
      assume "\<exists>t0 c e. t2 = t0 @ [c] \<and> quiet w t0 \<and> \<not> is_access c \<and> fault w c = Some e \<and>
           fst (k x s1) = Inl e"
      then obtain t0 c e where "t2 = t0 @ [c]" "quiet w t0" "\<not> is_access c"
        "fault w c = Some e" "fst (k x s1) = Inl e"
        by blast
      with q1 t1 t2 a show ?thesis
        by (intro exI [of _ "t1 @ t2"] conjI disjI2 exI [of _ "t1 @ t0"] exI [of _ c] exI [of _ e])
          simp_all
    qed
  qed
qed

lemma sound_steps: "sound w (steps w cs)"
  by (induction cs) (simp_all add: sound_ret sound_await sound_ext)

lemma sound_fs_access: "sound w (fs_access w p)"
proof (rule soundI)
  fix s :: "'a state"
  show "\<exists>t. calls (snd (fs_access w p s)) = calls s @ t \<and>
        (quiet w t \<or>
         (\<exists>t0 c e. t = t0 @ [c] \<and> quiet w t0 \<and> \<not> is_access c \<and> fault w c = Some e \<and>
            fst (fs_access w p s) = Inl e))"
    by (rule exI [of _ "[FsAccess p]"])
      (auto simp: fs_access_def ext_def quiet_single split: option.splits)
qed

lemma sound_case_sum:
  assumes "\<And>e. sound w (f e)" and "\<And>x. sound w (g x)"
  shows "sound w (case v of Inl e \<Rightarrow> f e | Inr x \<Rightarrow> g x)"
  using assms by (cases v) simp_all

lemma sound_case_option:
  assumes "sound w f" and "\<And>x. sound w (g x)"
  shows "sound w (case v of None \<Rightarrow> f | Some x \<Rightarrow> g x)"
  using assms by (cases v) simp_all

lemma sound_cache_exists: "sound w (cache_exists w)"
proof -
  have eq: "cache_exists w =
      (\<lambda>s. case fst (fs_access w PARSING_CACHE s) of
           Inl e \<Rightarrow> await (ext w (ConsoleLog (Text ''No cache found''))) (\<lambda>_. ret False)
             (snd (fs_access w PARSING_CACHE s))
         | Inr x \<Rightarrow> ret True (snd (fs_access w PARSING_CACHE s)))"
    by (auto simp: cache_exists_def fun_eq_iff split: prod.splits sum.splits)
  show ?thesis
  proof (rule soundI)
    fix s :: "'a state"
    let ?s1 = "s\<lparr>calls := calls s @ [FsAccess PARSING_CACHE]\<rparr>"
    have s1: "snd (fs_access w PARSING_CACHE s) = ?s1"
      by (simp add: fs_access_def ext_def split: option.splits)
    show "\<exists>t. calls (snd (cache_exists w s)) = calls s @ t \<and>
        (quiet w t \<or>
         (\<exists>t0 c e. t = t0 @ [c] \<and> quiet w t0 \<and> \<not> is_access c \<and> fault w c = Some e \<and>
            fst (cache_exists w s) = Inl e))"
    proof (cases "fst (fs_access w PARSING_CACHE s)")
      case (Inr x)
      then have "cache_exists w s = (Inr True, ?s1)"
        using s1 by (simp add: eq ret_def)
      then show ?thesis
        by (intro exI [of _ "[FsAccess PARSING_CACHE]"]) (simp add: quiet_single)
    next
      case (Inl e)
      then have "cache_exists w s =
          await (ext w (ConsoleLog (Text ''No cache found''))) (\<lambda>_. ret False) ?s1"
        using s1 by (simp add: eq)
      then show ?thesis
        by (intro exI [of _ "[FsAccess PARSING_CACHE, ConsoleLog (Text ''No cache found'')]"])
          (auto simp: await_def ext_def ret_def quiet_def split: option.splits)
    qed
  qed
qed

lemma sound_fs_readFile: "sound w (fs_readFile w p)"
  unfolding fs_readFile_def
  by (intro sound_await sound_ext soundI) (auto simp: throw_def ret_def split: option.splits)

lemma sound_fs_writeFile: "sound w (fs_writeFile w p text)"
  unfolding fs_writeFile_def
  by (intro sound_await sound_ext soundI) (auto simp: ret_def)

lemma sound_load_cache: "sound w (load_cache w)"
  unfolding load_cache_def
  by (intro sound_await sound_cache_exists)
    (auto intro!: sound_await sound_fs_readFile sound_ret sound_throw sound_case_option)

lemma sound_parse_loop: "sound w (parse_loop w batch cd)"
proof (induction batch arbitrary: cd)
  case Nil
  show ?case by (cases cd) (simp add: sound_ret)
next
  case (Cons f rest)
  obtain cache docs where cd: "cd = (cache, docs)"
    by (cases cd)
  show ?case
  proof (cases "cache_has w cache f")
    case (Inl e)
    then show ?thesis by (simp add: cd sound_throw)
  next
    case (Inr b)
    show ?thesis
    proof (cases b)
      case True
      with Inr show ?thesis by (simp add: cd Cons.IH)
    next
      case False
      with Inr show ?thesis
        by (auto simp: cd intro!: sound_await sound_ext sound_case_sum sound_throw Cons.IH)
    qed
  qed
qed

lemma sound_parse_batch: "sound w (parse_batch w batch)"
  unfolding parse_batch_def
  by (intro sound_await sound_load_cache sound_ext sound_parse_loop)

lemma sound_ingest: "sound w (ingest w batch)"
  unfolding ingest_def
  by (intro sound_await sound_parse_batch)
    (auto intro!: sound_await sound_fs_writeFile sound_ret)

lemma sound_main_qdrant: "sound w (main_qdrant w)"
  unfolding main_qdrant_def
  by (intro sound_await sound_steps sound_ingest) (simp add: split_def sound_steps del: steps.simps)

lemma sound_scripts: "(m, report) \<in> set (scripts w) \<Longrightarrow> sound w m"
  by (auto simp: scripts_def module_agent_def main_ollama_def main_agentic_rag_def
      main_rag_and_tools_def sound_steps sound_main_qdrant simp del: steps.simps)

lemma issued_append: "calls (snd (m s)) = calls s @ t \<Longrightarrow> issued m s = t"
  by (simp add: issued_def)

text \<open>
  C6. In every script, a call other than the existence check of the cache file that fails
  (a missing API key, a network failure, malformed tool arguments or a parsing-service
  error surface as the failure of a library call) is not handled: it is the last call the
  script body issues, the body ends with that exception, and the top level reports it
  (\<^verbatim>\<open>console.error\<close>, or Node's report for \<^verbatim>\<open>agent.mjs\<close>) as the last thing the
  process does.
\<close>

theorem failures_propagate:
  assumes script: "(m, report) \<in> set (scripts w)"
    and c: "c \<in> set (issued m s)" "\<not> is_access c" "fault w c = Some e"
  shows "fst (m s) = Inl e \<and> last (issued m s) = c \<and>
    calls (top_level report m s) = calls (snd (m s)) @ [report e] \<and>
    (report e = ConsoleError e \<or> report e = UncaughtException e)"
proof -
  from sound_scripts [OF script, unfolded sound_def, rule_format, of s] obtain t where
    t: "calls (snd (m s)) = calls s @ t"
    and cases: "quiet w t \<or>
      (\<exists>t0 c e. t = t0 @ [c] \<and> quiet w t0 \<and> \<not> is_access c \<and> fault w c = Some e \<and>
         fst (m s) = Inl e)"
    by blast
  have i: "issued m s = t"
    using t by (rule issued_append)
  have nq: "\<not> quiet w t"
    using c i by (auto simp: quiet_def list_all_iff)
  with cases obtain t0 c' e' where t0: "t = t0 @ [c']" "quiet w t0" "fault w c' = Some e'"
    "fst (m s) = Inl e'"
    by blast
  have "c \<notin> set t0"
    using t0(2) c by (auto simp: quiet_def list_all_iff)
  with c(1) i t0(1) have "c = c'"
    by auto
  with t0 c have r: "fst (m s) = Inl e" and l: "last (issued m s) = c"
    using i by auto
  have "calls (top_level report m s) = calls (snd (m s)) @ [report e]"
    using r by (cases "m s") (simp add: top_level_def)
  moreover have "report e = ConsoleError e \<or> report e = UncaughtException e"
    using script by (auto simp: scripts_def)
  ultimately show ?thesis
    using r l by simp
qed


section \<open>Concrete runs\<close>

lemma files_to_parse: "filesToParse = [budget_pdf]"
  by (simp add: filesToParse_def budget_pdf_def)

lemma paths_eval [simp]:
  "array_index budget_pdf = None"
  "array_index old_pdf = None"
  "budget_pdf \<notin> set object_prototype_members"
  "budget_pdf \<notin> set array_prototype_members"
  "budget_pdf \<noteq> ''length''"
  "budget_pdf \<noteq> ''__proto__''"
  "old_pdf \<noteq> budget_pdf"
  "budget_pdf \<noteq> old_pdf"
  by (simp_all add: array_index_def budget_pdf_def old_pdf_def object_prototype_members_def
      array_prototype_members_def)

lemma quote_paths:
  "quote budget_pdf = [CHR 0x22] @ budget_pdf @ [CHR 0x22]"
  "quote old_pdf = [CHR 0x22] @ old_pdf @ [CHR 0x22]"
  by (simp_all add: quote_def quote_char_def budget_pdf_def old_pdf_def)

lemma known_texts:
  "stringify0 (JObject []) = ''{}''"
  "stringify0 (JObject [(budget_pdf, JBool True)]) =
     ''{'' @ [CHR 0x22] @ budget_pdf @ [CHR 0x22] @ '':true}''"
  "stringify0 (JObject [(budget_pdf, JBool False)]) =
     ''{'' @ [CHR 0x22] @ budget_pdf @ [CHR 0x22] @ '':false}''"
  "stringify0 (JObject [(budget_pdf, JNum (Fin 1))]) =
     ''{'' @ [CHR 0x22] @ budget_pdf @ [CHR 0x22] @ '':1}''"
  "stringify0 (JObject [(old_pdf, JBool True)]) =
     ''{'' @ [CHR 0x22] @ old_pdf @ [CHR 0x22] @ '':true}''"
  "stringify0 (JObject [(old_pdf, JBool True), (budget_pdf, JBool False)]) =
     ''{'' @ [CHR 0x22] @ old_pdf @ [CHR 0x22] @ '':true,'' @
       [CHR 0x22] @ budget_pdf @ [CHR 0x22] @ '':false}''"
  "stringify0 (JObject [(old_pdf, JBool True), (budget_pdf, JBool True)]) =
     ''{'' @ [CHR 0x22] @ old_pdf @ [CHR 0x22] @ '':true,'' @
       [CHR 0x22] @ budget_pdf @ [CHR 0x22] @ '':true}''"
  "stringify0 (JArray [] ps) = ''[]''"
  "stringify0 JNull = ''null''"
  by (simp_all add: stringify0_def own_order_def quote_paths number_to_string_1
      del: number_to_string.simps)

lemma parse0_texts:
  "parse0 (stringify0 (JObject [])) = Some (JObject [])"
  "parse0 (stringify0 (JObject [(budget_pdf, JBool True)])) = Some (JObject [(budget_pdf, JBool True)])"
  "parse0 (stringify0 (JObject [(budget_pdf, JBool False)])) =
     Some (JObject [(budget_pdf, JBool False)])"
  "parse0 (stringify0 (JObject [(budget_pdf, JNum (Fin 1))])) =
     Some (JObject [(budget_pdf, JNum (Fin 1))])"
  "parse0 (stringify0 (JObject [(old_pdf, JBool True)])) = Some (JObject [(old_pdf, JBool True)])"
  "parse0 (stringify0 (JObject [(old_pdf, JBool True), (budget_pdf, JBool False)])) =
     Some (JObject [(old_pdf, JBool True), (budget_pdf, JBool False)])"
  "parse0 (stringify0 (JObject [(old_pdf, JBool True), (budget_pdf, JBool True)])) =
     Some (JObject [(old_pdf, JBool True), (budget_pdf, JBool True)])"
  "parse0 ''[]'' = Some (JArray [] [])"
  "parse0 ''null'' = Some JNull"
  "parse0 ''{'' = None"
  by (simp_all only: parse0_def known_values_def find.simps known_texts)
    (simp_all add: budget_pdf_def old_pdf_def)


lemmas run_eval =
  ingest_def parse_batch_def load_cache_def cache_exists_def fs_access_def fs_readFile_def
  fs_writeFile_def await_def ext_def ret_def throw_def cache_has_def cache_mark_def
  PARSING_CACHE_def files_to_parse world0_def failing_def no_cache_def with_cache_def
  parse0_texts

lemma ingest_no_cache:
  "ingest world0 filesToParse no_cache =
     (Inr (JObject [(budget_pdf, JBool True)], [''document of '' @ budget_pdf]),
      \<lparr>files = [PARSING_CACHE \<mapsto> stringify0 (JObject [(budget_pdf, JBool True)])],
       calls =
         [FsAccess PARSING_CACHE, ConsoleLog (Text ''No cache found''),
          NewLlamaParseReader ''markdown'', LoadData budget_pdf,
          FsWriteFile PARSING_CACHE (stringify0 (JObject [(budget_pdf, JBool True)]))]\<rparr>)"
  by (simp add: run_eval)

lemma ingest_marked:
  "ingest world0 filesToParse (with_cache (stringify0 (JObject [(budget_pdf, JBool True)]))) =
     (Inr (JObject [(budget_pdf, JBool True)], []),
      \<lparr>files = [PARSING_CACHE \<mapsto> stringify0 (JObject [(budget_pdf, JBool True)])],
       calls =
         [FsAccess PARSING_CACHE, FsReadFile PARSING_CACHE,
          NewLlamaParseReader ''markdown'',
          FsWriteFile PARSING_CACHE (stringify0 (JObject [(budget_pdf, JBool True)]))]\<rparr>)"
  by (simp add: run_eval)

lemma ingest_older:
  "ingest world0 filesToParse
     (with_cache (stringify0 (JObject [(old_pdf, JBool True), (budget_pdf, JBool False)]))) =
     (Inr (JObject [(old_pdf, JBool True), (budget_pdf, JBool True)],
        [''document of '' @ budget_pdf]),
      \<lparr>files = [PARSING_CACHE \<mapsto>
         stringify0 (JObject [(old_pdf, JBool True), (budget_pdf, JBool True)])],
       calls =
         [FsAccess PARSING_CACHE, FsReadFile PARSING_CACHE,
          NewLlamaParseReader ''markdown'', LoadData budget_pdf,
          FsWriteFile PARSING_CACHE
            (stringify0 (JObject [(old_pdf, JBool True), (budget_pdf, JBool True)]))]\<rparr>)"
  by (simp add: run_eval)

lemma ingest_array:
  "ingest world0 filesToParse (with_cache ''[]'') =
     (Inr (JArray [] [(budget_pdf, JBool True)], [''document of '' @ budget_pdf]),
      \<lparr>files = [PARSING_CACHE \<mapsto> ''[]''],
       calls =
         [FsAccess PARSING_CACHE, FsReadFile PARSING_CACHE,
          NewLlamaParseReader ''markdown'', LoadData budget_pdf,
          FsWriteFile PARSING_CACHE ''[]'']\<rparr>)"
  by (simp add: run_eval known_texts(8))

section \<open>The whole Qdrant script\<close>

lemma steps_frame:
  obtains ts where "snd (steps w cs s) = s\<lparr>calls := calls s @ ts\<rparr>" "set ts \<subseteq> set cs"
proof -
  have "only_calls (steps w cs) (\<lambda>c. c \<in> set cs)"
    by (rule only_calls_steps) (simp add: list_all_iff)
  then obtain ts where "snd (steps w cs s) = s\<lparr>calls := calls s @ ts\<rparr>"
    "list_all (\<lambda>c. c \<in> set cs) ts"
    by (auto elim: only_callsD [where s = s])
  then show thesis
    by (intro that [of ts]) (auto simp: list_all_iff)
qed

lemma steps_ok:
  "list_all (\<lambda>c. fault w c = None) cs \<Longrightarrow> steps w cs s = (Inr (), s\<lparr>calls := calls s @ cs\<rparr>)"
  by (induction cs arbitrary: s) (simp_all add: ret_def await_def ext_def)

lemma main_qdrant_setup_failed:
  "steps w (qdrant_setup w) s = (Inl e, sa) \<Longrightarrow> main_qdrant w s = (Inl e, sa)"
  by (simp add: main_qdrant_def await_def)

lemma main_qdrant_ingest_failed:
  "steps w (qdrant_setup w) s = (Inr u, sa) \<Longrightarrow> ingest w filesToParse sa = (Inl e, sb) \<Longrightarrow>
     main_qdrant w s = (Inl e, sb)"
  by (simp add: main_qdrant_def await_def)

lemma main_qdrant_ingested:
  "steps w (qdrant_setup w) s = (Inr u, sa) \<Longrightarrow>
   ingest w filesToParse sa = (Inr (cache, documents), sb) \<Longrightarrow>
     main_qdrant w s = steps w (qdrant_agent documents) sb"
  by (simp add: main_qdrant_def await_def)

lemma setup_calls:
  "c \<in> set (qdrant_setup w) \<Longrightarrow>
     \<not> is_load c \<and> \<not> is_write c \<and> \<not> is_from_documents c \<and> \<not> is_chat c"
  by (auto simp: qdrant_setup_def)

lemma agent_calls: "c \<in> set (qdrant_agent documents) \<Longrightarrow> \<not> is_write c"
  by (auto simp: qdrant_agent_def)

lemma files_top_level: "files (top_level report m s) = files (snd (m s))"
  by (simp add: top_level_def split: prod.splits sum.splits)

lemma calls_top_level_failed:
  "fst (m s) = Inl e \<Longrightarrow> calls (top_level report m s) = calls (snd (m s)) @ [report e]"
  by (cases "m s") (simp add: top_level_def)

lemma ingest_malformed:
  assumes "files s PARSING_CACHE = Some text" and "json_parse w text = None"
    and "fault w (FsAccess PARSING_CACHE) = None" and "fault w (FsReadFile PARSING_CACHE) = None"
  shows "ingest w batch s =
    (Inl SyntaxError, s\<lparr>calls := calls s @ [FsAccess PARSING_CACHE, FsReadFile PARSING_CACHE]\<rparr>)"
  using assms
  by (simp add: ingest_def parse_batch_def load_cache_def cache_exists_def fs_access_def
      fs_readFile_def await_def ext_def ret_def throw_def)

text \<open>
  C9. If the cache file exists (and can be accessed and read) but its contents are not
  valid JSON, the ingestion step ends with the SyntaxError of \<^verbatim>\<open>JSON.parse\<close> right after
  reading the file: no document is parsed, nothing is written, the files are as they
  were, and \<open>main\<close> fails (with that SyntaxError, which the top level prints, when the
  calls before the ingestion step succeed).
\<close>

theorem malformed_cache_aborts:
  assumes exists: "files s PARSING_CACHE = Some text" and bad: "json_parse w text = None"
    and acc: "fault w (FsAccess PARSING_CACHE) = None"
    and rd: "fault w (FsReadFile PARSING_CACHE) = None"
  shows "ingest w batch s =
      (Inl SyntaxError,
       s\<lparr>calls := calls s @ [FsAccess PARSING_CACHE, FsReadFile PARSING_CACHE]\<rparr>) \<and>
    (\<exists>e. fst (main_qdrant w s) = Inl e) \<and>
    files (run_qdrant w s) = files s \<and>
    list_all (\<lambda>c. \<not> is_load c \<and> \<not> is_write c) (issued (main_qdrant w) s) \<and>
    (list_all (\<lambda>c. fault w c = None) (qdrant_setup w) \<longrightarrow>
       fst (main_qdrant w s) = Inl SyntaxError \<and>
       last (calls (run_qdrant w s)) = ConsoleError SyntaxError)"
proof -
  obtain ts where ts: "snd (steps w (qdrant_setup w) s) = s\<lparr>calls := calls s @ ts\<rparr>"
    "set ts \<subseteq> set (qdrant_setup w)"
    by (rule steps_frame)
  let ?sa = "s\<lparr>calls := calls s @ ts\<rparr>"
  have quiet_ts: "list_all (\<lambda>c. \<not> is_load c \<and> \<not> is_write c) ts"
    using ts(2) setup_calls [of _ w] by (auto simp: list_all_iff)
  have main: "(\<exists>e. main_qdrant w s = (Inl e, ?sa)) \<or>
      main_qdrant w s =
        (Inl SyntaxError,
         s\<lparr>calls := calls s @ ts @ [FsAccess PARSING_CACHE, FsReadFile PARSING_CACHE]\<rparr>)"
  proof (cases "fst (steps w (qdrant_setup w) s)")
    case (Inl e)
    with ts(1) have "steps w (qdrant_setup w) s = (Inl e, ?sa)"
      by (cases "steps w (qdrant_setup w) s") simp
    then show ?thesis
      by (simp add: main_qdrant_setup_failed)
  next
    case (Inr u)
    with ts(1) have st: "steps w (qdrant_setup w) s = (Inr u, ?sa)"
      by (cases "steps w (qdrant_setup w) s") simp
    have "ingest w filesToParse ?sa =
        (Inl SyntaxError,
         ?sa\<lparr>calls := calls ?sa @ [FsAccess PARSING_CACHE, FsReadFile PARSING_CACHE]\<rparr>)"
      using exists bad acc rd by (intro ingest_malformed) simp_all
    from main_qdrant_ingest_failed [OF st this] show ?thesis
      by simp
  qed
  have 1: "\<exists>e. fst (main_qdrant w s) = Inl e"
    using main by auto
  have 2: "files (run_qdrant w s) = files s"
    using main by (auto simp: run_qdrant_def files_top_level)
  have 3: "list_all (\<lambda>c. \<not> is_load c \<and> \<not> is_write c) (issued (main_qdrant w) s)"
    using main quiet_ts by (auto simp: issued_def)
  have 4: "fst (main_qdrant w s) = Inl SyntaxError \<and>
       last (calls (run_qdrant w s)) = ConsoleError SyntaxError"
    if ok: "list_all (\<lambda>c. fault w c = None) (qdrant_setup w)"
  proof -
    from steps_ok [OF ok, of s] have st: "steps w (qdrant_setup w) s =
        (Inr (), s\<lparr>calls := calls s @ qdrant_setup w\<rparr>)" .
    let ?sb = "s\<lparr>calls := calls s @ qdrant_setup w\<rparr>"
    have "ingest w filesToParse ?sb =
        (Inl SyntaxError,
         ?sb\<lparr>calls := calls ?sb @ [FsAccess PARSING_CACHE, FsReadFile PARSING_CACHE]\<rparr>)"
      using exists bad acc rd by (intro ingest_malformed) simp_all
    from main_qdrant_ingest_failed [OF st this] have "fst (main_qdrant w s) = Inl SyntaxError"
      by simp
    then show ?thesis
      by (simp add: run_qdrant_def calls_top_level_failed)
  qed
  from ingest_malformed [OF exists bad acc rd] 1 2 3 4 show ?thesis
    by blast
qed

lemma files_to_parse_own: "f \<in> set filesToParse \<Longrightarrow> f \<notin> set object_prototype_members"
  by (auto simp: filesToParse_def object_prototype_members_def)

lemma only_calls_parse_batch_plain:
  "only_calls (parse_batch w batch)
     (\<lambda>c. \<not> is_write c \<and> \<not> is_from_documents c \<and> \<not> is_chat c)"
  unfolding parse_batch_def
proof (intro only_calls_await only_calls_ext)
  show "only_calls (load_cache w) (\<lambda>c. \<not> is_write c \<and> \<not> is_from_documents c \<and> \<not> is_chat c)"
    by (rule only_calls_mono [OF only_calls_load_cache]) (auto simp: cache_call_def)
  show "only_calls (parse_loop w batch (x, []))
      (\<lambda>c. \<not> is_write c \<and> \<not> is_from_documents c \<and> \<not> is_chat c)" for x
    by (rule only_calls_mono [OF only_calls_parse_loop]) auto
qed simp

text \<open>
  C10, amended. The Qdrant script writes the cache file before it builds the index: in
  every run that reaches the write (and the write succeeds) no index construction and no
  agent call comes before it and no write after it, and the text written is what the
  file holds when the process ends, whatever happens to the later calls. When the cache
  file was absent at startup, or could be accessed and held a JSON object, the text is
  that of an object: the startup entries, overridden by \<open>true\<close> for the paths of the batch
  that had no truthy entry. Every path of the batch then reads as truthy in it, and is
  \<open>true\<close> when the startup entries are booleans.
\<close>

theorem cache_written_before_index:
  assumes reached: "FsWriteFile PARSING_CACHE text \<in> set (issued (main_qdrant w) s)"
    and ok: "fault w (FsWriteFile PARSING_CACHE text) = None"
  shows "files (run_qdrant w s) PARSING_CACHE = Some text \<and>
    (\<exists>pre post. issued (main_qdrant w) s = pre @ FsWriteFile PARSING_CACHE text # post \<and>
       list_all (\<lambda>c. \<not> is_write c \<and> \<not> is_from_documents c \<and> \<not> is_chat c) pre \<and>
       list_all (\<lambda>c. \<not> is_write c) post) \<and>
    (cache_file_holds w s ps \<longrightarrow>
       (\<exists>ps'. text = json_stringify w (JObject ps') \<and>
          map_of ps' =
            map_of ps ++
              (\<lambda>k. if k \<in> set filesToParse \<and> cache_has w (JObject ps) k = Inr False
                   then Some (JBool True) else None) \<and>
          (\<forall>f \<in> set filesToParse. cache_has w (JObject ps') f = Inr True) \<and>
          (boolean_entries ps \<longrightarrow>
             (\<forall>f \<in> set filesToParse. map_of ps' f = Some (JBool True)))))"
proof -
  let ?W = "FsWriteFile PARSING_CACHE text :: 'a call"
  let ?plain = "\<lambda>c :: 'a call. \<not> is_write c \<and> \<not> is_from_documents c \<and> \<not> is_chat c"
  obtain ts where ts: "snd (steps w (qdrant_setup w) s) = s\<lparr>calls := calls s @ ts\<rparr>"
    "set ts \<subseteq> set (qdrant_setup w)"
    by (rule steps_frame)
  let ?sa = "s\<lparr>calls := calls s @ ts\<rparr>"
  have ts_plain: "?plain c" if "c \<in> set ts" for c
    using that ts(2) setup_calls [of c w] by auto
  have W_ts: "?W \<notin> set ts"
    using ts_plain [of ?W] by auto
  show ?thesis
  proof (cases "fst (steps w (qdrant_setup w) s)")
    case (Inl e)
    with ts(1) have "steps w (qdrant_setup w) s = (Inl e, ?sa)"
      by (cases "steps w (qdrant_setup w) s") simp
    then have "main_qdrant w s = (Inl e, ?sa)"
      by (rule main_qdrant_setup_failed)
    then have "issued (main_qdrant w) s = ts"
      by (simp add: issued_def)
    with reached W_ts show ?thesis
      by simp
  next
    case (Inr u)
    with ts(1) have st: "steps w (qdrant_setup w) s = (Inr u, ?sa)"
      by (cases "steps w (qdrant_setup w) s") simp
    from only_calls_parse_batch_plain [of w filesToParse] obtain t where
      t: "snd (parse_batch w filesToParse ?sa) = ?sa\<lparr>calls := calls ?sa @ t\<rparr>"
      "list_all ?plain t"
      by (auto elim: only_callsD [where s = ?sa])
    let ?s1 = "?sa\<lparr>calls := calls ?sa @ t\<rparr>"
    have W_t: "?W \<notin> set t"
      using t(2) by (auto simp: list_all_iff)
    show ?thesis
    proof (cases "fst (parse_batch w filesToParse ?sa)")
      case (Inl e)
      with t(1) have "parse_batch w filesToParse ?sa = (Inl e, ?s1)"
        by (cases "parse_batch w filesToParse ?sa") simp
      then have "ingest w filesToParse ?sa = (Inl e, ?s1)"
        by (rule ingest_batch_failed)
      from main_qdrant_ingest_failed [OF st this] have "issued (main_qdrant w) s = ts @ t"
        by (simp add: issued_def)
      with reached W_ts W_t show ?thesis
        by simp
    next
      case (Inr cd)
      obtain cache docs where cd: "cd = (cache, docs)"
        by (cases cd)
      with Inr t(1) have pb: "parse_batch w filesToParse ?sa = (Inr (cache, docs), ?s1)"
        by (cases "parse_batch w filesToParse ?sa") simp
      show ?thesis
      proof (cases "fault w (cache_write w cache)")
        case (Some e)
        with ingest_after_batch [OF pb] have "ingest w filesToParse ?sa =
            (Inl e, ?s1\<lparr>calls := calls ?s1 @ [cache_write w cache]\<rparr>)"
          by simp
        from main_qdrant_ingest_failed [OF st this]
        have "issued (main_qdrant w) s = ts @ t @ [cache_write w cache]"
          by (simp add: issued_def)
        with reached W_ts W_t have "?W = cache_write w cache"
          by simp
        with Some ok show ?thesis
          by simp
      next
        case None
        let ?sb = "?s1\<lparr>calls := calls ?s1 @ [cache_write w cache],
            files := (files ?s1)(PARSING_CACHE \<mapsto> json_stringify w cache)\<rparr>"
        from None ingest_after_batch [OF pb] have ing:
          "ingest w filesToParse ?sa = (Inr (cache, docs), ?sb)"
          by simp
        obtain tp where tp: "snd (steps w (qdrant_agent docs) ?sb) = ?sb\<lparr>calls := calls ?sb @ tp\<rparr>"
          "set tp \<subseteq> set (qdrant_agent docs)"
          by (rule steps_frame)
        have m: "main_qdrant w s = steps w (qdrant_agent docs) ?sb"
          by (rule main_qdrant_ingested [OF st ing])
        have i: "issued (main_qdrant w) s = (ts @ t) @ cache_write w cache # tp"
          unfolding issued_def m tp(1) by simp
        have post: "list_all (\<lambda>c. \<not> is_write c) tp"
          using tp(2) agent_calls [of _ docs] by (auto simp: list_all_iff)
        then have W_tp: "?W \<notin> set tp"
          by (auto simp: list_all_iff)
        from reached i W_ts W_t W_tp have W: "?W = cache_write w cache"
          by simp
        then have written_text: "text = json_stringify w cache"
          by (simp add: cache_write_def)
        have pre: "list_all ?plain (ts @ t)"
          using ts_plain t(2) by (auto simp: list_all_iff)
        have "files (snd (main_qdrant w s)) PARSING_CACHE = Some text"
          unfolding m tp(1) written_text by simp
        then have 1: "files (run_qdrant w s) PARSING_CACHE = Some text"
          by (simp add: run_qdrant_def files_top_level)
        have 2: "\<exists>pre post. issued (main_qdrant w) s = pre @ ?W # post \<and>
            list_all ?plain pre \<and> list_all (\<lambda>c. \<not> is_write c) post"
          using i pre post unfolding W by blast
        have 3: "\<exists>ps'. text = json_stringify w (JObject ps') \<and>
          map_of ps' =
            map_of ps ++
              (\<lambda>k. if k \<in> set filesToParse \<and> cache_has w (JObject ps) k = Inr False
                   then Some (JBool True) else None) \<and>
          (\<forall>f \<in> set filesToParse. cache_has w (JObject ps') f = Inr True) \<and>
          (boolean_entries ps \<longrightarrow>
             (\<forall>f \<in> set filesToParse. map_of ps' f = Some (JBool True)))"
          if holds: "cache_file_holds w s ps"
        proof -
          have holds_a: "cache_file_holds w ?sa ps"
            using holds by (simp add: cache_file_holds_def)
          from ingest_written [OF holds_a ing] obtain ps' where c: "cache = JObject ps'"
            and mp: "map_of ps' =
              (\<lambda>k. if k \<in> set filesToParse \<and> cache_has w (JObject ps) k = Inr False
                   then Some (JBool True) else map_of ps k)"
            and truthy: "\<forall>f \<in> set filesToParse. cache_has w (JObject ps') f = Inr True"
            by blast
          have mp': "map_of ps' =
            map_of ps ++
              (\<lambda>k. if k \<in> set filesToParse \<and> cache_has w (JObject ps) k = Inr False
                   then Some (JBool True) else None)"
            unfolding mp by (auto simp: fun_eq_iff map_add_def)
          have marked: "\<forall>f \<in> set filesToParse. map_of ps' f = Some (JBool True)"
            if bools: "boolean_entries ps"
          proof -
            have own: "set filesToParse \<inter> set object_prototype_members = {}"
              using files_to_parse_own by auto
            from written_cache_marks_batch [OF holds_a bools own ing [unfolded c]]
            show ?thesis
              by (simp add: map_add_def)
          qed
          from written_text c mp' truthy marked show ?thesis
            by blast
        qed
        from 1 2 3 show ?thesis
          by blast
      qed
    qed
  qed
qed

section \<open>The statements at concrete runs\<close>

lemmas main_eval =
  issued_def main_qdrant_def qdrant_setup_def qdrant_agent_def run_eval

theorem written_cache_entries_witness:
  "(cache_file_holds world0
      (with_cache (stringify0 (JObject [(old_pdf, JBool True), (budget_pdf, JBool False)])))
      [(old_pdf, JBool True), (budget_pdf, JBool False)] \<and>
    ingest world0 filesToParse
      (with_cache (stringify0 (JObject [(old_pdf, JBool True), (budget_pdf, JBool False)]))) =
      (Inr (JObject [(old_pdf, JBool True), (budget_pdf, JBool True)],
         [''document of '' @ budget_pdf]),
       \<lparr>files = [PARSING_CACHE \<mapsto>
          stringify0 (JObject [(old_pdf, JBool True), (budget_pdf, JBool True)])],
        calls =
          [FsAccess PARSING_CACHE, FsReadFile PARSING_CACHE,
           NewLlamaParseReader ''markdown'', LoadData budget_pdf,
           FsWriteFile PARSING_CACHE
             (stringify0 (JObject [(old_pdf, JBool True), (budget_pdf, JBool True)]))]\<rparr>) \<and>
    boolean_entries [(old_pdf, JBool True), (budget_pdf, JBool False)] \<and>
    set filesToParse \<inter> set object_prototype_members = {}) \<and>
   (\<exists>ps'. JObject [(old_pdf, JBool True), (budget_pdf, JBool True)] = JObject ps' \<and>
      files
        (\<lparr>files = [PARSING_CACHE \<mapsto>
           stringify0 (JObject [(old_pdf, JBool True), (budget_pdf, JBool True)])],
         calls =
           [FsAccess PARSING_CACHE, FsReadFile PARSING_CACHE,
            NewLlamaParseReader ''markdown'', LoadData budget_pdf,
            FsWriteFile PARSING_CACHE
              (stringify0 (JObject [(old_pdf, JBool True), (budget_pdf, JBool True)]))]\<rparr>
           :: string state)
        PARSING_CACHE = Some (json_stringify world0 (JObject ps')) \<and>
      parsed (issued (ingest world0 filesToParse)
        (with_cache (stringify0 (JObject [(old_pdf, JBool True), (budget_pdf, JBool False)])))) =
        {k \<in> set filesToParse.
           cache_has world0 (JObject [(old_pdf, JBool True), (budget_pdf, JBool False)]) k =
             Inr False} \<and>
      map_of ps' =
        map_of [(old_pdf, JBool True), (budget_pdf, JBool False)] ++
          (\<lambda>k. if k \<in> parsed (issued (ingest world0 filesToParse)
                 (with_cache
                    (stringify0 (JObject [(old_pdf, JBool True), (budget_pdf, JBool False)]))))
               then Some (JBool True) else None) \<and>
      (\<forall>f \<in> set filesToParse. cache_has world0 (JObject ps') f = Inr True) \<and>
      (boolean_entries [(old_pdf, JBool True), (budget_pdf, JBool False)] \<and>
         set filesToParse \<inter> set object_prototype_members = {} \<longrightarrow>
       map_of ps' =
         map_of [(old_pdf, JBool True), (budget_pdf, JBool False)] ++
           (\<lambda>k. if k \<in> set filesToParse then Some (JBool True) else None))) \<and>
   parsed (issued (ingest world0 filesToParse)
     (with_cache (stringify0 (JObject [(old_pdf, JBool True), (budget_pdf, JBool False)])))) =
     {budget_pdf} \<and>
   map_of [(old_pdf, JBool True), (budget_pdf, JBool True)] =
     map_of [(old_pdf, JBool True), (budget_pdf, JBool False)] ++
       (\<lambda>k. if k \<in> set filesToParse then Some (JBool True) else None)"
proof -
  let ?s = "with_cache (stringify0 (JObject [(old_pdf, JBool True), (budget_pdf, JBool False)]))"
  have h: "cache_file_holds world0 ?s [(old_pdf, JBool True), (budget_pdf, JBool False)]"
    by (simp add: cache_file_holds_def with_cache_def world0_def parse0_texts)
  note r = ingest_older
  have b: "boolean_entries [(old_pdf, JBool True), (budget_pdf, JBool False)]"
    by (simp add: boolean_entries_def)
  have own: "set filesToParse \<inter> set object_prototype_members = {}"
    by (simp add: files_to_parse)
  have p: "parsed (issued (ingest world0 filesToParse) ?s) = {budget_pdf}"
    unfolding parsed_def issued_def ingest_older by (auto simp: with_cache_def)
  have m: "map_of [(old_pdf, JBool True), (budget_pdf, JBool True)] =
     map_of [(old_pdf, JBool True), (budget_pdf, JBool False)] ++
       (\<lambda>k. if k \<in> set filesToParse then Some (JBool True) else None)"
    by (simp add: fun_eq_iff files_to_parse map_add_def)
  show ?thesis
    using written_cache_entries [OF h r] h r b own p m by (intro conjI)
qed

text \<open>
  C1 as it is worded fails when the cache file holds a JSON array: with the text \<open>[]\<close>
  the path is parsed, \<^verbatim>\<open>cache[file] = true\<close> gives the array a property that
  \<^verbatim>\<open>JSON.stringify\<close> does not print, and the text written is \<open>[]\<close> again, in which the
  path parsed in this run has no entry.
\<close>

theorem array_cache_written_without_paths:
  "ingest world0 filesToParse (with_cache ''[]'') =
     (Inr (JArray [] [(budget_pdf, JBool True)], [''document of '' @ budget_pdf]),
      \<lparr>files = [PARSING_CACHE \<mapsto> ''[]''],
       calls =
         [FsAccess PARSING_CACHE, FsReadFile PARSING_CACHE,
          NewLlamaParseReader ''markdown'', LoadData budget_pdf,
          FsWriteFile PARSING_CACHE ''[]'']\<rparr>) \<and>
   json_parse world0 ''[]'' = Some (JArray [] []) \<and>
   json_stringify world0 (JArray [] [(budget_pdf, JBool True)]) = ''[]'' \<and>
   parsed (issued (ingest world0 filesToParse) (with_cache ''[]'')) = {budget_pdf} \<and>
   cache_has world0 (JArray [] []) budget_pdf = Inr False"
proof -
  have "parsed (issued (ingest world0 filesToParse) (with_cache ''[]'')) = {budget_pdf}"
    unfolding parsed_def issued_def ingest_array by (auto simp: with_cache_def)
  then show ?thesis
    using ingest_array by (simp add: world0_def parse0_texts known_texts cache_has_def)
qed

lemma load_cache_marked:
  "load_cache world0 (with_cache (stringify0 (JObject [(budget_pdf, JBool True)]))) =
     (Inr (JObject [(budget_pdf, JBool True)]),
      \<lparr>files = [PARSING_CACHE \<mapsto> stringify0 (JObject [(budget_pdf, JBool True)])],
       calls = [FsAccess PARSING_CACHE, FsReadFile PARSING_CACHE]\<rparr>)"
  by (simp add: run_eval)

theorem marked_path_is_skipped_witness:
  "map_of [(budget_pdf, JBool True)] budget_pdf = Some (JBool True) \<and>
   LoadData budget_pdf \<notin>
     set (issued (parse_loop world0 filesToParse (JObject [(budget_pdf, JBool True)], [])) no_cache) \<and>
   load_cache world0 (with_cache (stringify0 (JObject [(budget_pdf, JBool True)]))) =
     (Inr (JObject [(budget_pdf, JBool True)]),
      \<lparr>files = [PARSING_CACHE \<mapsto> stringify0 (JObject [(budget_pdf, JBool True)])],
       calls = [FsAccess PARSING_CACHE, FsReadFile PARSING_CACHE]\<rparr>) \<and>
   LoadData budget_pdf \<notin>
     set (issued (ingest world0 filesToParse)
       (with_cache (stringify0 (JObject [(budget_pdf, JBool True)]))))"
proof -
  have h: "map_of [(budget_pdf, JBool True)] budget_pdf = Some (JBool True)"
    by simp
  from marked_path_is_skipped [OF h] load_cache_marked h show ?thesis
    by blast
qed

lemma parse_batch_marked:
  "parse_batch world0 filesToParse (with_cache (stringify0 (JObject [(budget_pdf, JBool True)]))) =
     (Inr (JObject [(budget_pdf, JBool True)], []),
      \<lparr>files = [PARSING_CACHE \<mapsto> stringify0 (JObject [(budget_pdf, JBool True)])],
       calls =
         [FsAccess PARSING_CACHE, FsReadFile PARSING_CACHE, NewLlamaParseReader ''markdown'']\<rparr>)"
  by (simp add: run_eval)

theorem cache_written_once_witness:
  "parse_batch world0 filesToParse (with_cache (stringify0 (JObject [(budget_pdf, JBool True)]))) =
     (Inr (JObject [(budget_pdf, JBool True)], []),
      \<lparr>files = [PARSING_CACHE \<mapsto> stringify0 (JObject [(budget_pdf, JBool True)])],
       calls =
         [FsAccess PARSING_CACHE, FsReadFile PARSING_CACHE, NewLlamaParseReader ''markdown'']\<rparr>) \<and>
   parsed (issued (ingest world0 filesToParse)
     (with_cache (stringify0 (JObject [(budget_pdf, JBool True)])))) = {} \<and>
   filter is_write (issued (ingest world0 filesToParse)
     (with_cache (stringify0 (JObject [(budget_pdf, JBool True)])))) =
     [FsWriteFile PARSING_CACHE (stringify0 (JObject [(budget_pdf, JBool True)]))] \<and>
   last (issued (ingest world0 filesToParse)
     (with_cache (stringify0 (JObject [(budget_pdf, JBool True)])))) =
     FsWriteFile PARSING_CACHE (stringify0 (JObject [(budget_pdf, JBool True)])) \<and>
   fault world0 (FsWriteFile PARSING_CACHE (stringify0 (JObject [(budget_pdf, JBool True)]))) = None \<and>
   files (snd (ingest world0 filesToParse
     (with_cache (stringify0 (JObject [(budget_pdf, JBool True)]))))) PARSING_CACHE =
     Some (stringify0 (JObject [(budget_pdf, JBool True)]))"
proof -
  have none: "parsed (issued (ingest world0 filesToParse)
     (with_cache (stringify0 (JObject [(budget_pdf, JBool True)])))) = {}"
    unfolding parsed_def issued_def ingest_marked by (simp add: with_cache_def)
  have ok: "fault world0 (FsWriteFile PARSING_CACHE (stringify0 (JObject [(budget_pdf, JBool True)]))) = None"
    by (simp add: world0_def)
  have js: "json_stringify world0 = stringify0"
    by (simp add: world0_def)
  from cache_written_once [OF parse_batch_marked] parse_batch_marked none ok show ?thesis
    unfolding js by blast
qed

lemma main_malformed_setup:
  "list_all (\<lambda>c. fault world0 c = None) (qdrant_setup world0)"
  by (simp add: world0_def qdrant_setup_def)

theorem malformed_cache_aborts_witness:
  "(files (with_cache ''{'') PARSING_CACHE = Some ''{'' \<and>
    json_parse world0 ''{'' = None \<and>
    fault world0 (FsAccess PARSING_CACHE) = None \<and>
    fault world0 (FsReadFile PARSING_CACHE) = None \<and>
    list_all (\<lambda>c. fault world0 c = None) (qdrant_setup world0)) \<and>
   ingest world0 filesToParse (with_cache ''{'') =
     (Inl SyntaxError,
      (with_cache ''{'')\<lparr>calls := calls (with_cache ''{'') @
         [FsAccess PARSING_CACHE, FsReadFile PARSING_CACHE]\<rparr>) \<and>
   files (run_qdrant world0 (with_cache ''{'')) = files (with_cache ''{'') \<and>
   fst (main_qdrant world0 (with_cache ''{'')) = Inl SyntaxError \<and>
   last (calls (run_qdrant world0 (with_cache ''{''))) = ConsoleError SyntaxError"
proof -
  have 1: "files (with_cache ''{'') PARSING_CACHE = Some ''{''"
    by (simp add: with_cache_def)
  have 2: "json_parse world0 ''{'' = None"
    by (simp add: world0_def parse0_texts)
  have 3: "fault world0 (FsAccess PARSING_CACHE) = None"
    and 4: "fault world0 (FsReadFile PARSING_CACHE) = None"
    by (simp_all add: world0_def)
  from malformed_cache_aborts [OF 1 2 3 4, of filesToParse] main_malformed_setup 1 2 3 4
  show ?thesis
    by blast
qed

lemma main_chat_fails:
  "main_qdrant (failing (AgentChat health_question) (Rejected ''network failure'')) no_cache =
     (Inl (Rejected ''network failure''),
      \<lparr>files = [PARSING_CACHE \<mapsto> stringify0 (JObject [(budget_pdf, JBool True)])],
       calls =
         [NewOpenAI (Some ''sk-example'') ''gpt-4o'',
          NewHuggingFaceEmbedding ''BAAI/bge-small-en-v1.5'' False,
          CallbackOn ''llm-tool-call'',
          CallbackOn ''llm-tool-result'',
          NewQdrantVectorStore qdrant_url,
          FsAccess PARSING_CACHE,
          ConsoleLog (Text ''No cache found''),
          NewLlamaParseReader ''markdown'',
          LoadData budget_pdf,
          FsWriteFile PARSING_CACHE (stringify0 (JObject [(budget_pdf, JBool True)])),
          FromDocuments [''document of '' @ budget_pdf] (Some qdrant_url),
          AsRetriever,
          SetSimilarityTopK 10,
          AsQueryEngine,
          NewTool (QueryEngineTool budget_tool_metadata),
          NewTool (FunctionTool sumNumbers sumNumbers_metadata),
          NewOpenAIAgent tools_qdrant,
          AgentChat health_question]\<rparr>)"
  by (simp add: main_eval)

theorem failures_propagate_witness:
  "((main_qdrant (failing (AgentChat health_question) (Rejected ''network failure'')), ConsoleError)
      \<in> set (scripts (failing (AgentChat health_question) (Rejected ''network failure''))) \<and>
    AgentChat health_question \<in>
      set (issued (main_qdrant (failing (AgentChat health_question) (Rejected ''network failure'')))
        no_cache) \<and>
    \<not> is_access (AgentChat health_question :: string call) \<and>
    fault (failing (AgentChat health_question) (Rejected ''network failure''))
      (AgentChat health_question) = Some (Rejected ''network failure'')) \<and>
   fst (main_qdrant (failing (AgentChat health_question) (Rejected ''network failure'')) no_cache) =
     Inl (Rejected ''network failure'') \<and>
   last (issued (main_qdrant (failing (AgentChat health_question) (Rejected ''network failure'')))
     no_cache) = AgentChat health_question \<and>
   calls (top_level ConsoleError
       (main_qdrant (failing (AgentChat health_question) (Rejected ''network failure''))) no_cache) =
     calls (snd (main_qdrant (failing (AgentChat health_question) (Rejected ''network failure''))
       no_cache)) @ [ConsoleError (Rejected ''network failure'')]"
proof -
  let ?w = "failing (AgentChat health_question) (Rejected ''network failure'')"
  have 1: "(main_qdrant ?w, ConsoleError) \<in> set (scripts ?w)"
    by (simp add: scripts_def)
  have 2: "AgentChat health_question \<in> set (issued (main_qdrant ?w) no_cache)"
    unfolding issued_def main_chat_fails by (simp add: no_cache_def)
  have 3: "\<not> is_access (AgentChat health_question :: string call)"
    by simp
  have 4: "fault ?w (AgentChat health_question) = Some (Rejected ''network failure'')"
    by (simp add: failing_def)
  from failures_propagate [OF 1 2 3 4] 1 2 3 4 show ?thesis
    by blast
qed

lemma main_index_fails:
  "main_qdrant
     (failing (FromDocuments [''document of '' @ budget_pdf] (Some qdrant_url))
        (Rejected ''vector store unreachable''))
     (with_cache (stringify0 (JObject [(old_pdf, JBool True), (budget_pdf, JBool False)]))) =
     (Inl (Rejected ''vector store unreachable''),
      \<lparr>files = [PARSING_CACHE \<mapsto>
         stringify0 (JObject [(old_pdf, JBool True), (budget_pdf, JBool True)])],
       calls =
         [NewOpenAI (Some ''sk-example'') ''gpt-4o'',
          NewHuggingFaceEmbedding ''BAAI/bge-small-en-v1.5'' False,
          CallbackOn ''llm-tool-call'',
          CallbackOn ''llm-tool-result'',
          NewQdrantVectorStore qdrant_url,
          FsAccess PARSING_CACHE,
          FsReadFile PARSING_CACHE,
          NewLlamaParseReader ''markdown'',
          LoadData budget_pdf,
          FsWriteFile PARSING_CACHE
            (stringify0 (JObject [(old_pdf, JBool True), (budget_pdf, JBool True)])),
          FromDocuments [''document of '' @ budget_pdf] (Some qdrant_url)]\<rparr>)"
  by (simp add: main_eval)

theorem cache_written_before_index_witness:
  "(FsWriteFile PARSING_CACHE
      (stringify0 (JObject [(old_pdf, JBool True), (budget_pdf, JBool True)])) \<in>
      set (issued (main_qdrant
        (failing (FromDocuments [''document of '' @ budget_pdf] (Some qdrant_url))
           (Rejected ''vector store unreachable'')))
        (with_cache (stringify0 (JObject [(old_pdf, JBool True), (budget_pdf, JBool False)])))) \<and>
    fault (failing (FromDocuments [''document of '' @ budget_pdf] (Some qdrant_url))
         (Rejected ''vector store unreachable''))
      (FsWriteFile PARSING_CACHE
         (stringify0 (JObject [(old_pdf, JBool True), (budget_pdf, JBool True)]))) = None \<and>
    cache_file_holds
      (failing (FromDocuments [''document of '' @ budget_pdf] (Some qdrant_url))
         (Rejected ''vector store unreachable''))
      (with_cache (stringify0 (JObject [(old_pdf, JBool True), (budget_pdf, JBool False)])))
      [(old_pdf, JBool True), (budget_pdf, JBool False)] \<and>
    boolean_entries [(old_pdf, JBool True), (budget_pdf, JBool False)] \<and>
    fst (main_qdrant
        (failing (FromDocuments [''document of '' @ budget_pdf] (Some qdrant_url))
           (Rejected ''vector store unreachable''))
        (with_cache (stringify0 (JObject [(old_pdf, JBool True), (budget_pdf, JBool False)])))) =
      Inl (Rejected ''vector store unreachable'')) \<and>
   files (run_qdrant
       (failing (FromDocuments [''document of '' @ budget_pdf] (Some qdrant_url))
          (Rejected ''vector store unreachable''))
       (with_cache (stringify0 (JObject [(old_pdf, JBool True), (budget_pdf, JBool False)]))))
     PARSING_CACHE =
     Some (stringify0 (JObject [(old_pdf, JBool True), (budget_pdf, JBool True)])) \<and>
   (\<exists>pre post.
      issued (main_qdrant
        (failing (FromDocuments [''document of '' @ budget_pdf] (Some qdrant_url))
           (Rejected ''vector store unreachable'')))
        (with_cache (stringify0 (JObject [(old_pdf, JBool True), (budget_pdf, JBool False)]))) =
        pre @
        FsWriteFile PARSING_CACHE
          (stringify0 (JObject [(old_pdf, JBool True), (budget_pdf, JBool True)])) # post \<and>
      list_all (\<lambda>c. \<not> is_write c \<and> \<not> is_from_documents c \<and> \<not> is_chat c) pre \<and>
      list_all (\<lambda>c. \<not> is_write c) post) \<and>
   (\<exists>ps'. stringify0 (JObject [(old_pdf, JBool True), (budget_pdf, JBool True)]) =
        json_stringify
          (failing (FromDocuments [''document of '' @ budget_pdf] (Some qdrant_url))
             (Rejected ''vector store unreachable'')) (JObject ps') \<and>
      map_of ps' =
        map_of [(old_pdf, JBool True), (budget_pdf, JBool False)] ++
          (\<lambda>k. if k \<in> set filesToParse \<and>
                  cache_has
                    (failing (FromDocuments [''document of '' @ budget_pdf] (Some qdrant_url))
                       (Rejected ''vector store unreachable''))
                    (JObject [(old_pdf, JBool True), (budget_pdf, JBool False)]) k = Inr False
               then Some (JBool True) else None) \<and>
      (\<forall>f \<in> set filesToParse.
         cache_has
           (failing (FromDocuments [''document of '' @ budget_pdf] (Some qdrant_url))
              (Rejected ''vector store unreachable''))
           (JObject ps') f = Inr True) \<and>
      (boolean_entries [(old_pdf, JBool True), (budget_pdf, JBool False)] \<longrightarrow>
         (\<forall>f \<in> set filesToParse. map_of ps' f = Some (JBool True)))) \<and>
   map_of [(old_pdf, JBool True), (budget_pdf, JBool True)] budget_pdf = Some (JBool True) \<and>
   map_of [(old_pdf, JBool True), (budget_pdf, JBool True)] old_pdf = Some (JBool True)"
proof -
  let ?w = "failing (FromDocuments [''document of '' @ budget_pdf] (Some qdrant_url))
         (Rejected ''vector store unreachable'')"
  let ?s = "with_cache (stringify0 (JObject [(old_pdf, JBool True), (budget_pdf, JBool False)]))"
  let ?T = "stringify0 (JObject [(old_pdf, JBool True), (budget_pdf, JBool True)])"
  have 1: "FsWriteFile PARSING_CACHE ?T \<in> set (issued (main_qdrant ?w) ?s)"
    unfolding issued_def main_index_fails by (simp add: with_cache_def)
  have 2: "fault ?w (FsWriteFile PARSING_CACHE ?T) = None"
    by (simp add: failing_def)
  have 3: "cache_file_holds ?w ?s [(old_pdf, JBool True), (budget_pdf, JBool False)]"
    by (simp add: cache_file_holds_def with_cache_def failing_def world0_def parse0_texts)
  have 4: "boolean_entries [(old_pdf, JBool True), (budget_pdf, JBool False)]"
    by (simp add: boolean_entries_def)
  have 5: "fst (main_qdrant ?w ?s) = Inl (Rejected ''vector store unreachable'')"
    unfolding main_index_fails by simp
  have 6: "map_of [(old_pdf, JBool True), (budget_pdf, JBool True)] budget_pdf = Some (JBool True)"
    "map_of [(old_pdf, JBool True), (budget_pdf, JBool True)] old_pdf = Some (JBool True)"
    by simp_all
  note c = cache_written_before_index
    [OF 1 2, of "[(old_pdf, JBool True), (budget_pdf, JBool False)]"]
  show ?thesis
    using 1 2 3 4 5 6 c [THEN conjunct1] c [THEN conjunct2, THEN conjunct1]
      c [THEN conjunct2, THEN conjunct2, THEN mp, OF 3]
    by (intro conjI)
qed

lemma main_truthy_entry:
  "main_qdrant world0 (with_cache (stringify0 (JObject [(budget_pdf, JNum (Fin 1))]))) =
     (Inr (),
      \<lparr>files = [PARSING_CACHE \<mapsto> stringify0 (JObject [(budget_pdf, JNum (Fin 1))])],
       calls =
         qdrant_setup world0 @
         [FsAccess PARSING_CACHE,
          FsReadFile PARSING_CACHE,
          NewLlamaParseReader ''markdown'',
          FsWriteFile PARSING_CACHE (stringify0 (JObject [(budget_pdf, JNum (Fin 1))]))] @
         qdrant_agent []\<rparr>)"
  by (simp add: main_eval)

lemma main_array:
  "main_qdrant world0 (with_cache ''[]'') =
     (Inr (),
      \<lparr>files = [PARSING_CACHE \<mapsto> ''[]''],
       calls =
         qdrant_setup world0 @
         [FsAccess PARSING_CACHE,
          FsReadFile PARSING_CACHE,
          NewLlamaParseReader ''markdown'',
          LoadData budget_pdf,
          FsWriteFile PARSING_CACHE ''[]''] @
         qdrant_agent [''document of '' @ budget_pdf]\<rparr>)"
  by (simp add: main_eval known_texts(8))

text \<open>
  C10 as it is worded fails in runs that reach the write. When the cache file holds
  \<open>{"../data/sf_budget_2023_2024.pdf":1}\<close>, the path is skipped and the entry \<open>1\<close> is
  written back, not \<open>true\<close>. When it holds \<open>[]\<close>, the path is parsed, the run goes on to
  the index and the agent and ends well, and the file holds \<open>[]\<close> again, in which the
  path is not marked at all.
\<close>

theorem written_entry_not_true:
  "stringify0 (JObject [(budget_pdf, JNum (Fin 1))]) =
     ''{'' @ [CHR 0x22] @ ''../data/sf_budget_2023_2024.pdf'' @ [CHR 0x22] @ '':1}'' \<and>
   json_parse world0 (stringify0 (JObject [(budget_pdf, JNum (Fin 1))])) =
     Some (JObject [(budget_pdf, JNum (Fin 1))]) \<and>
   FsWriteFile PARSING_CACHE (stringify0 (JObject [(budget_pdf, JNum (Fin 1))])) \<in>
     set (issued (main_qdrant world0)
       (with_cache (stringify0 (JObject [(budget_pdf, JNum (Fin 1))])))) \<and>
   fault world0 (FsWriteFile PARSING_CACHE (stringify0 (JObject [(budget_pdf, JNum (Fin 1))]))) =
     None \<and>
   parsed (issued (main_qdrant world0)
     (with_cache (stringify0 (JObject [(budget_pdf, JNum (Fin 1))])))) = {} \<and>
   files (run_qdrant world0 (with_cache (stringify0 (JObject [(budget_pdf, JNum (Fin 1))]))))
     PARSING_CACHE = Some (stringify0 (JObject [(budget_pdf, JNum (Fin 1))])) \<and>
   budget_pdf \<in> set filesToParse \<and>
   map_of [(budget_pdf, JNum (Fin 1))] budget_pdf \<noteq> Some (JBool True) \<and>
   json_parse world0 ''[]'' = Some (JArray [] []) \<and>
   FsWriteFile PARSING_CACHE ''[]'' \<in> set (issued (main_qdrant world0) (with_cache ''[]'')) \<and>
   fault world0 (FsWriteFile PARSING_CACHE ''[]'') = None \<and>
   parsed (issued (main_qdrant world0) (with_cache ''[]'')) = {budget_pdf} \<and>
   fst (main_qdrant world0 (with_cache ''[]'')) = Inr () \<and>
   files (run_qdrant world0 (with_cache ''[]'')) PARSING_CACHE = Some ''[]'' \<and>
   cache_has world0 (JArray [] []) budget_pdf = Inr False"
proof -
  let ?T = "stringify0 (JObject [(budget_pdf, JNum (Fin 1))])"
  have 1: "?T = ''{'' @ [CHR 0x22] @ ''../data/sf_budget_2023_2024.pdf'' @ [CHR 0x22] @ '':1}''"
    unfolding known_texts by (simp add: budget_pdf_def)
  have 2: "json_parse world0 ?T = Some (JObject [(budget_pdf, JNum (Fin 1))])"
    "json_parse world0 ''[]'' = Some (JArray [] [])"
    by (simp_all add: world0_def parse0_texts)
  have 3: "FsWriteFile PARSING_CACHE ?T \<in> set (issued (main_qdrant world0) (with_cache ?T))"
    "FsWriteFile PARSING_CACHE ''[]'' \<in> set (issued (main_qdrant world0) (with_cache ''[]''))"
    unfolding issued_def main_truthy_entry main_array by (simp_all add: with_cache_def)
  have 4: "fault world0 c = None" for c
    by (simp add: world0_def)
  have 5: "parsed (issued (main_qdrant world0) (with_cache ?T)) = {}"
    "parsed (issued (main_qdrant world0) (with_cache ''[]'')) = {budget_pdf}"
    unfolding parsed_def issued_def main_truthy_entry main_array
    by (auto simp: with_cache_def qdrant_setup_def qdrant_agent_def)
  have 6: "files (run_qdrant world0 (with_cache ?T)) PARSING_CACHE = Some ?T"
    "files (run_qdrant world0 (with_cache ''[]'')) PARSING_CACHE = Some ''[]''"
    unfolding run_qdrant_def files_top_level main_truthy_entry main_array by simp_all
  have 7: "budget_pdf \<in> set filesToParse"
    "map_of [(budget_pdf, JNum (Fin 1))] budget_pdf \<noteq> Some (JBool True)"
    "fst (main_qdrant world0 (with_cache ''[]'')) = Inr ()"
    "cache_has world0 (JArray [] []) budget_pdf = Inr False"
    unfolding main_array by (simp_all add: files_to_parse cache_has_def)
  from 1 2 3 4 5 6 7 show ?thesis
    by blast
qed

end
